theory Spec2Isabelle
  imports Main "HOL-Library.Word"
begin

section \<open>Python values and exceptions\<close>

text \<open>
  The three polling scripts (\<^verbatim>\<open>test_omniparser_http.py\<close>,
  \<^verbatim>\<open>test_omniparser_logging.py\<close>, \<^verbatim>\<open>inspect_omniparser.py\<close>) work on the values
  that \<^verbatim>\<open>json.loads\<close> returns. A float is kept as its IEEE-754 bit pattern, since the
  scripts never compute with it; a dict is an association list read with \<open>map_of\<close>.
  A string is a list of characters, one per code point (code points below 256).
\<close>

datatype pyval =
    PNone
  | PBool bool
  | PInt int
  | PFloat "64 word"
  | PStr string
  | PList "pyval list"
  | PDict "(string \<times> pyval) list"

datatype py_exception =
    RequestException
  | JSONDecodeError
  | TypeError
  | AttributeError
  | ValueError
  | OverflowError

text \<open>
  \<^verbatim>\<open>json.loads\<close> and \<^verbatim>\<open>ast.literal_eval\<close> belong to the Python standard library,
  not to the repository: they are parameters of the model. \<open>None\<close> is the parser's exception
  (\<^verbatim>\<open>json.JSONDecodeError\<close> for \<^verbatim>\<open>json.loads\<close>).
\<close>

type_synonym parser = "string \<Rightarrow> pyval option"

subsection \<open>Built-in operations the scripts use\<close>

definition then_do :: "py_exception + 'a \<Rightarrow> ('a \<Rightarrow> py_exception + 'b) \<Rightarrow> py_exception + 'b" where
  "then_do r f = (case r of Inl e \<Rightarrow> Inl e | Inr x \<Rightarrow> f x)"

text \<open>A loop over a list that stops at the first exception; it yields what each turn yields.\<close>

fun for_each :: "('a \<Rightarrow> py_exception + 'b) \<Rightarrow> 'a list \<Rightarrow> py_exception + 'b list" where
  "for_each f [] = Inr []"
| "for_each f (x # xs) =
     (case f x of
        Inl e \<Rightarrow> Inl e
      | Inr y \<Rightarrow> (case for_each f xs of Inl e \<Rightarrow> Inl e | Inr ys \<Rightarrow> Inr (y # ys)))"

text \<open>
  \<^verbatim>\<open>bool(v)\<close>: the truth value Python's
  \<^verbatim>\<open>or\<close>, \<^verbatim>\<open>if\<close> and
  \<^verbatim>\<open>not\<close> test.
\<close>

definition py_truthy :: "pyval \<Rightarrow> bool" where
  "py_truthy v =
     (case v of
        PNone \<Rightarrow> False
      | PBool b \<Rightarrow> b
      | PInt n \<Rightarrow> n \<noteq> 0
      | PFloat w \<Rightarrow> w \<noteq> 0 \<and> w \<noteq> 0x8000000000000000
      | PStr s \<Rightarrow> s \<noteq> []
      | PList xs \<Rightarrow> xs \<noteq> []
      | PDict kvs \<Rightarrow> kvs \<noteq> [])"

definition py_or :: "pyval \<Rightarrow> pyval \<Rightarrow> pyval" where
  "py_or a b = (if py_truthy a then a else b)"

text \<open>
  \<^verbatim>\<open>len(v)\<close> raises TypeError on None, booleans and numbers.
\<close>

definition py_len :: "pyval \<Rightarrow> py_exception + nat" where
  "py_len v =
     (case v of
        PStr s \<Rightarrow> Inr (length s)
      | PList xs \<Rightarrow> Inr (length xs)
      | PDict kvs \<Rightarrow> Inr (length (remdups (map fst kvs)))
      | _ \<Rightarrow> Inl TypeError)"

text \<open>
  The items of \<^verbatim>\<open>v[:n]\<close>: a list or a string can be sliced (a string's items are its
  one-character strings), anything else raises. For a dict the exception is a TypeError up to
  Python 3.11 and a KeyError from 3.12 on; both end the run the same way, and the model names
  the first.
\<close>

definition py_slice_to :: "nat \<Rightarrow> pyval \<Rightarrow> py_exception + pyval list" where
  "py_slice_to n v =
     (case v of
        PList xs \<Rightarrow> Inr (take n xs)
      | PStr s \<Rightarrow> Inr (map (\<lambda>c. PStr [c]) (take n s))
      | _ \<Rightarrow> Inl TypeError)"

text \<open>The items of \<^verbatim>\<open>for elem in v\<close>.\<close>

definition py_iter :: "pyval \<Rightarrow> py_exception + pyval list" where
  "py_iter v =
     (case v of
        PList xs \<Rightarrow> Inr xs
      | PStr s \<Rightarrow> Inr (map (\<lambda>c. PStr [c]) s)
      | PDict kvs \<Rightarrow> Inr (map PStr (remdups (map fst kvs)))
      | _ \<Rightarrow> Inl TypeError)"

text \<open>\<^verbatim>\<open>v.get(key, default)\<close>: only a dict has the method.\<close>

definition py_get :: "pyval \<Rightarrow> string \<Rightarrow> pyval \<Rightarrow> py_exception + pyval" where
  "py_get v key dflt =
     (case v of
        PDict kvs \<Rightarrow> Inr (case map_of kvs key of None \<Rightarrow> dflt | Some x \<Rightarrow> x)
      | _ \<Rightarrow> Inl AttributeError)"

text \<open>
  \<^verbatim>\<open>f"{v:.2f}"\<close>: a number is formatted (an int is converted to a float first, which
  overflows from \<open>2^1024 - 2^970\<close> on), a string raises ValueError, None, a list and a dict
  raise TypeError. Only whether it raises matters here.
\<close>

definition format_2f :: "pyval \<Rightarrow> py_exception + unit" where
  "format_2f v =
     (case v of
        PInt n \<Rightarrow> (if \<bar>n\<bar> < 2 ^ 1024 - 2 ^ 970 then Inr () else Inl OverflowError)
      | PFloat w \<Rightarrow> Inr ()
      | PBool b \<Rightarrow> Inr ()
      | PStr s \<Rightarrow> Inl ValueError
      | _ \<Rightarrow> Inl TypeError)"

subsection \<open>Strings\<close>

definition startswith :: "string \<Rightarrow> string \<Rightarrow> bool" where
  "startswith s p = (take (length p) s = p)"

text \<open>
  \<^verbatim>\<open>s.split(c)\<close> for a one-character separator: never empty.
\<close>

fun split :: "char \<Rightarrow> string \<Rightarrow> string list" where
  "split c [] = [[]]"
| "split c (x # xs) =
     (if x = c then [] # split c xs
      else (case split c xs of [] \<Rightarrow> [[x]] | l # ls \<Rightarrow> (x # l) # ls))"

definition newline :: char where
  "newline = CHR 0x0A"

text \<open>
  The characters \<^verbatim>\<open>str.strip()\<close> removes, among the code points below
  256.
\<close>

definition isspace :: "char \<Rightarrow> bool" where
  "isspace c = ((of_char c :: nat) \<in> {9, 10, 11, 12, 13, 28, 29, 30, 31, 32, 133, 160})"

definition strip :: "string \<Rightarrow> string" where
  "strip s = rev (dropWhile isspace (rev (dropWhile isspace s)))"

text \<open>
  \<^verbatim>\<open>str.lower()\<close> on the code points below 256: A-Z and the Latin-1
  capitals.
\<close>

definition lower_char :: "char \<Rightarrow> char" where
  "lower_char c =
     (let n = (of_char c :: nat)
      in if (65 \<le> n \<and> n \<le> 90) \<or> (192 \<le> n \<and> n \<le> 222 \<and> n \<noteq> 215)
         then char_of (n + 32) else c)"

definition lower :: "string \<Rightarrow> string" where
  "lower s = map lower_char s"

text \<open>
  \<^verbatim>\<open>t in s\<close> on strings: \<open>t\<close> occurs in \<open>s\<close>
  as a contiguous substring.
\<close>

primrec py_in :: "string \<Rightarrow> string \<Rightarrow> bool" where
  "py_in t [] = (t = [])"
| "py_in t (c # cs) = (startswith (c # cs) t \<or> py_in t cs)"

section \<open>The remote service\<close>

text \<open>
  What the scripts see of the network. A call of \<^verbatim>\<open>requests.post\<close> or
  \<^verbatim>\<open>requests.get\<close> raises or returns a response; \<open>post_json\<close> is what
  \<^verbatim>\<open>response.json()\<close> raises or returns. The result URL is built from the event id,
  so the answers to the GET calls may depend on it: \<open>fetch svc event_id k\<close> answers the
  \<open>k\<close>-th GET (from 0) of a run.
\<close>

record post_response =
  post_status :: nat
  post_json :: "py_exception + pyval"

record get_response =
  status_code :: nat
  body :: string

record service =
  submit :: "py_exception + post_response"
  fetch :: "pyval \<Rightarrow> nat \<Rightarrow> py_exception + get_response"

text \<open>
  What one frame (one \<^verbatim>\<open>data: \<close> line) does to the run: the loop goes on to the next
  line, the function returns, or an exception leaves the loops.
\<close>

datatype 'o frame = Continue | Return 'o | Raise py_exception

text \<open>
  \<^verbatim>\<open>for line in lines: if line.startswith('data: '): data = line[6:] ...\<close>, the same in
  the three scripts; \<open>handle\<close> is the script's treatment of \<open>data\<close>.
\<close>

fun for_lines :: "(string \<Rightarrow> 'o frame) \<Rightarrow> string list \<Rightarrow> 'o frame" where
  "for_lines handle [] = Continue"
| "for_lines handle (line # lines) =
     (case (if startswith line ''data: '' then handle (drop 6 line) else Continue) of
        Continue \<Rightarrow> for_lines handle lines
      | Return out \<Rightarrow> Return out
      | Raise e \<Rightarrow> Raise e)"

section \<open>test_omniparser_http.py\<close>

text \<open>
  The exits of \<^verbatim>\<open>test_omniparser\<close>, by the message printed before each:
  "Result received" (returns True; with the decoded elements, or None when the inner string
  is not JSON and is printed raw), "Timeout waiting for result" (False), "Request failed"
  (False), "Error" (False), and the end of the function body (returns None).
\<close>

datatype http_outcome =
    ResultReceived "pyval option"
  | TimeoutWaiting
  | RequestFailed
  | ErrorCaught py_exception
  | FellThrough


text \<open>
  \<^verbatim>\<open>except requests.exceptions.RequestException\<close> comes first, \<^verbatim>\<open>except Exception\<close>
  second.
\<close>

definition except_http :: "py_exception \<Rightarrow> http_outcome" where
  "except_http e = (if e = RequestException then RequestFailed else ErrorCaught e)"

text \<open>
  The four \<^verbatim>\<open>elem.get(..., 'N/A')\<close> of one printed element; the result is the four
  values printed.
\<close>

record printed =
  printed_type :: pyval
  printed_bbox :: pyval
  printed_content :: pyval
  printed_confidence :: pyval

definition print_elem_http :: "pyval \<Rightarrow> py_exception + printed" where
  "print_elem_http elem =
     then_do (py_get elem ''type'' (PStr ''N/A'')) (\<lambda>t.
     then_do (py_get elem ''bbox'' (PStr ''N/A'')) (\<lambda>b.
     then_do (py_get elem ''content'' (PStr ''N/A'')) (\<lambda>c.
     then_do (py_get elem ''confidence'' (PStr ''N/A'')) (\<lambda>f.
       Inr \<lparr>printed_type = t, printed_bbox = b, printed_content = c,
            printed_confidence = f\<rparr>))))"

text \<open>
  \<^verbatim>\<open>len(elements)\<close>, then
  \<^verbatim>\<open>for i, elem in enumerate(elements[:5])\<close>.
\<close>

definition print_elements_http :: "pyval \<Rightarrow> py_exception + printed list" where
  "print_elements_http elements =
     then_do (py_len elements) (\<lambda>n.
     then_do (py_slice_to 5 elements) (\<lambda>es. for_each print_elem_http es))"

text \<open>
  The body of \<^verbatim>\<open>if isinstance(parsed, list) and len(parsed) >= 2\<close>:
  \<^verbatim>\<open>json.loads(parsed_elements)\<close> raises TypeError on anything but a string; its
  JSONDecodeError is caught by the inner handler, which prints the raw text; the function
  returns True after either.
\<close>

definition result_http :: "parser \<Rightarrow> pyval \<Rightarrow> http_outcome frame" where
  "result_http loads parsed_elements =
     (case parsed_elements of
        PStr s \<Rightarrow>
          (case loads s of
             None \<Rightarrow> Return (ResultReceived None)
           | Some elements \<Rightarrow>
               (case print_elements_http elements of
                  Inl e \<Rightarrow> Raise e
                | Inr u \<Rightarrow> Return (ResultReceived (Some elements))))
      | _ \<Rightarrow> Raise TypeError)"

definition handle_data_http :: "parser \<Rightarrow> string \<Rightarrow> http_outcome frame" where
  "handle_data_http loads data =
     (if data = ''null'' then Continue
      else (case loads data of
              None \<Rightarrow> Continue
            | Some parsed \<Rightarrow>
                (case parsed of
                   PList xs \<Rightarrow> if length xs \<ge> 2 then result_http loads (xs ! 1) else Continue
                 | _ \<Rightarrow> Continue)))"

text \<open>
  \<^verbatim>\<open>for i in range(max_attempts)\<close>: the list is the rest of the range and \<open>n\<close> counts
  the GET calls made so far. The timeout check stands inside
  \<^verbatim>\<open>if result_response.status_code == 200\<close>.
\<close>

fun poll_http ::
  "parser \<Rightarrow> (nat \<Rightarrow> py_exception + get_response) \<Rightarrow> nat \<Rightarrow> nat list \<Rightarrow> nat \<Rightarrow> http_outcome \<times> nat"
where
  "poll_http loads get max_attempts [] n = (FellThrough, n)"
| "poll_http loads get max_attempts (i # rest) n =
     (case get n of
        Inl e \<Rightarrow> (except_http e, Suc n)
      | Inr result_response \<Rightarrow>
          if status_code result_response = 200 then
            (case for_lines (handle_data_http loads)
                    (split newline (strip (body result_response))) of
               Return out \<Rightarrow> (out, Suc n)
             | Raise e \<Rightarrow> (except_http e, Suc n)
             | Continue \<Rightarrow>
                 if int i = int max_attempts - 1 then (TimeoutWaiting, Suc n)
                 else poll_http loads get max_attempts rest (Suc n))
          else poll_http loads get max_attempts rest (Suc n))"

text \<open>
  \<^verbatim>\<open>test_omniparser\<close>, from the POST on (the image file is read before the
  \<^verbatim>\<open>try\<close>). The result is the exit taken and the number of GET calls made.
  \<^verbatim>\<open>raise_for_status\<close> raises an HTTPError, a RequestException, for a status from 400 to 599.
\<close>

definition test_omniparser :: "parser \<Rightarrow> service \<Rightarrow> http_outcome \<times> nat" where
  "test_omniparser loads svc =
     (case submit svc of
        Inl e \<Rightarrow> (except_http e, 0)
      | Inr response \<Rightarrow>
          if 400 \<le> post_status response \<and> post_status response < 600 then (RequestFailed, 0)
          else (case post_json response of
                  Inl e \<Rightarrow> (except_http e, 0)
                | Inr result \<Rightarrow>
                    (case py_get result ''event_id'' PNone of
                       Inl e \<Rightarrow> (except_http e, 0)
                     | Inr event_id \<Rightarrow> poll_http loads (fetch svc event_id) 30 [0..<30] 0)))"

section \<open>test_omniparser_logging.py\<close>

text \<open>
  The exits of \<^verbatim>\<open>test_omniparser_with_logging\<close>: the POST's status is not 200
  (returns False), no element was detected (False), no element matches the target text
  (False), the end of the result handling (True; with the elements and the matched ones,
  none when no target text is given), the timeout after the loop (False) and
  \<^verbatim>\<open>except Exception\<close> (False).
\<close>

datatype logging_outcome =
    StepsDone pyval "pyval list"
  | BadStatus
  | NoElementsDetected
  | NoMatchedElement
  | TimedOut
  | ExceptionCaught py_exception

definition returns_logging :: "logging_outcome \<Rightarrow> bool" where
  "returns_logging out = (case out of StepsDone els matched \<Rightarrow> True | _ \<Rightarrow> False)"

text \<open>
  One element of the detailed list: \<^verbatim>\<open>elem.get('type', 'N/A')\<close>,
  \<^verbatim>\<open>elem.get('content', 'N/A')\<close>, \<^verbatim>\<open>elem.get('confidence', 0):.2f\<close>,
  \<^verbatim>\<open>elem.get('bbox', 'N/A')\<close>, \<^verbatim>\<open>elem.get('interactivity', False)\<close>. The
  result is the five values the lines show (the confidence is the number that is formatted).
\<close>

record listed =
  shown_type :: pyval
  shown_content :: pyval
  shown_confidence :: pyval
  shown_bbox :: pyval
  shown_interactivity :: pyval

definition print_elem_logging :: "pyval \<Rightarrow> py_exception + listed" where
  "print_elem_logging elem =
     then_do (py_get elem ''type'' (PStr ''N/A'')) (\<lambda>t.
     then_do (py_get elem ''content'' (PStr ''N/A'')) (\<lambda>c.
     then_do (py_get elem ''confidence'' (PInt 0)) (\<lambda>f.
     then_do (format_2f f) (\<lambda>u.
     then_do (py_get elem ''bbox'' (PStr ''N/A'')) (\<lambda>b.
     then_do (py_get elem ''interactivity'' (PBool False)) (\<lambda>a.
       Inr \<lparr>shown_type = t, shown_content = c, shown_confidence = f, shown_bbox = b,
            shown_interactivity = a\<rparr>))))))"

text \<open>
  \<^verbatim>\<open>(elem.get(key) or '').lower()\<close>: only a string has the method.
\<close>

definition lowered :: "pyval \<Rightarrow> string \<Rightarrow> py_exception + string" where
  "lowered elem key =
     then_do (py_get elem key PNone) (\<lambda>v.
       case py_or v (PStr []) of PStr s \<Rightarrow> Inr (lower s) | _ \<Rightarrow> Inl AttributeError)"

text \<open>
  The three prints of a match: \<^verbatim>\<open>elem.get('content')\<close>,
  \<^verbatim>\<open>elem.get('type')\<close> and \<^verbatim>\<open>elem.get('confidence', 0):.2f\<close>; the result is
  the three values shown.
\<close>

record match_shown =
  match_content :: pyval
  match_type :: pyval
  match_confidence :: pyval

definition print_match :: "pyval \<Rightarrow> py_exception + match_shown" where
  "print_match elem =
     then_do (py_get elem ''content'' PNone) (\<lambda>c.
     then_do (py_get elem ''type'' PNone) (\<lambda>t.
     then_do (py_get elem ''confidence'' (PInt 0)) (\<lambda>f.
     then_do (format_2f f) (\<lambda>u.
       Inr \<lparr>match_content = c, match_type = t, match_confidence = f\<rparr>))))"

text \<open>
  \<^verbatim>\<open>for elem in elements\<close> of the text filter; \<open>matched\<close> is the list the loop appends to.
\<close>

fun match_elements :: "string \<Rightarrow> pyval list \<Rightarrow> pyval list \<Rightarrow> py_exception + pyval list" where
  "match_elements target_lower matched [] = Inr matched"
| "match_elements target_lower matched (elem # rest) =
     then_do (lowered elem ''content'') (\<lambda>content.
     then_do (lowered elem ''source'') (\<lambda>source.
       if py_in target_lower content \<or> py_in target_lower source
       then then_do (print_match elem) (\<lambda>u. match_elements target_lower (matched @ [elem]) rest)
       else match_elements target_lower matched rest))"

text \<open>
  \<^verbatim>\<open>if target_text:\<close> holds for a string that is not empty; the default is None.
\<close>

definition filter_logging :: "string option \<Rightarrow> pyval \<Rightarrow> logging_outcome frame" where
  "filter_logging target_text elements =
     (case target_text of
        None \<Rightarrow> Return (StepsDone elements [])
      | Some t \<Rightarrow>
          if t = [] then Return (StepsDone elements [])
          else (case then_do (py_iter elements) (match_elements (lower t) []) of
                  Inl e \<Rightarrow> Raise e
                | Inr matched \<Rightarrow>
                    if matched = [] then Return NoMatchedElement
                    else Return (StepsDone elements matched)))"

text \<open>
  From \<^verbatim>\<open>len(elements)\<close> to the end of the result handling: the empty result returns
  False, the first ten elements are printed, then the filter.
\<close>

definition report_logging :: "string option \<Rightarrow> pyval \<Rightarrow> logging_outcome frame" where
  "report_logging target_text elements =
     (case py_len elements of
        Inl e \<Rightarrow> Raise e
      | Inr n \<Rightarrow>
          if n = 0 then Return NoElementsDetected
          else (case then_do (py_slice_to 10 elements) (for_each print_elem_logging) of
                  Inl e \<Rightarrow> Raise e
                | Inr u \<Rightarrow> filter_logging target_text elements))"

text \<open>
  \<^verbatim>\<open>parsed_elements_str = parsed[1]\<close>: a string is parsed, and a JSONDecodeError there
  is caught by the handler of the frame, which goes on to the next line; anything else is
  taken as the elements.
\<close>

definition result_logging :: "parser \<Rightarrow> string option \<Rightarrow> pyval \<Rightarrow> logging_outcome frame" where
  "result_logging loads target_text parsed_elements_str =
     (case parsed_elements_str of
        PStr s \<Rightarrow>
          (case loads s of
             None \<Rightarrow> Continue
           | Some elements \<Rightarrow> report_logging target_text elements)
      | _ \<Rightarrow> report_logging target_text parsed_elements_str)"

definition handle_data_logging :: "parser \<Rightarrow> string option \<Rightarrow> string \<Rightarrow> logging_outcome frame" where
  "handle_data_logging loads target_text data =
     (if data = ''null'' then Continue
      else (case loads data of
              None \<Rightarrow> Continue
            | Some parsed \<Rightarrow>
                (case parsed of
                   PList xs \<Rightarrow>
                     if length xs \<ge> 2 then result_logging loads target_text (xs ! 1)
                     else Continue
                 | _ \<Rightarrow> Continue)))"

text \<open>
  \<^verbatim>\<open>for attempt in range(max_attempts)\<close>; the timeout is reported after the loop.
\<close>

fun poll_logging ::
  "parser \<Rightarrow> string option \<Rightarrow> (nat \<Rightarrow> py_exception + get_response) \<Rightarrow> nat list \<Rightarrow> nat
    \<Rightarrow> logging_outcome \<times> nat"
where
  "poll_logging loads target_text get [] n = (TimedOut, n)"
| "poll_logging loads target_text get (attempt # rest) n =
     (case get n of
        Inl e \<Rightarrow> (ExceptionCaught e, Suc n)
      | Inr result_response \<Rightarrow>
          if status_code result_response = 200 then
            (case for_lines (handle_data_logging loads target_text)
                    (split newline (body result_response)) of
               Return out \<Rightarrow> (out, Suc n)
             | Raise e \<Rightarrow> (ExceptionCaught e, Suc n)
             | Continue \<Rightarrow> poll_logging loads target_text get rest (Suc n))
          else poll_logging loads target_text get rest (Suc n))"

definition test_omniparser_with_logging ::
  "parser \<Rightarrow> string option \<Rightarrow> service \<Rightarrow> logging_outcome \<times> nat"
where
  "test_omniparser_with_logging loads target_text svc =
     (case submit svc of
        Inl e \<Rightarrow> (ExceptionCaught e, 0)
      | Inr response \<Rightarrow>
          if post_status response \<noteq> 200 then (BadStatus, 0)
          else (case post_json response of
                  Inl e \<Rightarrow> (ExceptionCaught e, 0)
                | Inr result \<Rightarrow>
                    (case py_get result ''event_id'' PNone of
                       Inl e \<Rightarrow> (ExceptionCaught e, 0)
                     | Inr event_id \<Rightarrow>
                         poll_logging loads target_text (fetch svc event_id) [0..<30] 0)))"

section \<open>inspect_omniparser.py\<close>

text \<open>
  What \<^verbatim>\<open>inspect_omniparser_response\<close> reports of the second member of the result:
  it is no string (nothing is parsed), the strict parse gave the elements, the strict parse
  failed and \<^verbatim>\<open>ast.literal_eval\<close> gave them, or the fallback failed too.
\<close>

datatype inner_result =
    NotAString pyval
  | StrictParsed pyval
  | LiteralParsed pyval
  | BothFailed

text \<open>
  The function returns None on every path, or an exception leaves it (it has no handler
  of its own but for JSONDecodeError).
\<close>

datatype inspect_outcome =
    Inspected inner_result
  | InspectBadStatus
  | InspectTimeout
  | Propagated py_exception

text \<open>
  The \<^verbatim>\<open>try\<close> on \<^verbatim>\<open>elements_data\<close>. After the strict parse, \<^verbatim>\<open>len(elements)\<close>
  and \<^verbatim>\<open>elements[:3]\<close> may raise a TypeError, which no handler catches. The fallback
  runs in a \<^verbatim>\<open>try\<close> of its own that catches every exception: one raised by
  \<^verbatim>\<open>ast.literal_eval\<close>, by \<^verbatim>\<open>len\<close> or by the slice is printed as a failure of the
  fallback.
\<close>

definition result_inspect :: "parser \<Rightarrow> parser \<Rightarrow> pyval \<Rightarrow> inspect_outcome frame" where
  "result_inspect loads literal_eval elements_data =
     (case elements_data of
        PStr s \<Rightarrow>
          (case loads s of
             Some elements \<Rightarrow>
               (case then_do (py_len elements) (\<lambda>n. py_slice_to 3 elements) of
                  Inl e \<Rightarrow> Raise e
                | Inr es \<Rightarrow> Return (Inspected (StrictParsed elements)))
           | None \<Rightarrow>
               (case literal_eval s of
                  Some elements \<Rightarrow>
                    (case then_do (py_len elements) (\<lambda>n. py_slice_to 3 elements) of
                       Inl e \<Rightarrow> Return (Inspected BothFailed)
                     | Inr es \<Rightarrow> Return (Inspected (LiteralParsed elements)))
                | None \<Rightarrow> Return (Inspected BothFailed)))
      | _ \<Rightarrow> Return (Inspected (NotAString elements_data)))"

definition handle_data_inspect :: "parser \<Rightarrow> parser \<Rightarrow> string \<Rightarrow> inspect_outcome frame" where
  "handle_data_inspect loads literal_eval data =
     (if data = ''null'' then Continue
      else (case loads data of
              None \<Rightarrow> Continue
            | Some parsed \<Rightarrow>
                (case parsed of
                   PList xs \<Rightarrow>
                     if length xs \<ge> 2 then result_inspect loads literal_eval (xs ! 1)
                     else Continue
                 | _ \<Rightarrow> Continue)))"

fun poll_inspect ::
  "parser \<Rightarrow> parser \<Rightarrow> (nat \<Rightarrow> py_exception + get_response) \<Rightarrow> nat list \<Rightarrow> nat
    \<Rightarrow> inspect_outcome \<times> nat"
where
  "poll_inspect loads literal_eval get [] n = (InspectTimeout, n)"
| "poll_inspect loads literal_eval get (attempt # rest) n =
     (case get n of
        Inl e \<Rightarrow> (Propagated e, Suc n)
      | Inr result_response \<Rightarrow>
          if status_code result_response = 200 then
            (case for_lines (handle_data_inspect loads literal_eval)
                    (split newline (body result_response)) of
               Return out \<Rightarrow> (out, Suc n)
             | Raise e \<Rightarrow> (Propagated e, Suc n)
             | Continue \<Rightarrow> poll_inspect loads literal_eval get rest (Suc n))
          else poll_inspect loads literal_eval get rest (Suc n))"

definition inspect_omniparser_response :: "parser \<Rightarrow> parser \<Rightarrow> service \<Rightarrow> inspect_outcome \<times> nat" where
  "inspect_omniparser_response loads literal_eval svc =
     (case submit svc of
        Inl e \<Rightarrow> (Propagated e, 0)
      | Inr response \<Rightarrow>
          if post_status response \<noteq> 200 then (InspectBadStatus, 0)
          else (case post_json response of
                  Inl e \<Rightarrow> (Propagated e, 0)
                | Inr result \<Rightarrow>
                    (case py_get result ''event_id'' PNone of
                       Inl e \<Rightarrow> (Propagated e, 0)
                     | Inr event_id \<Rightarrow>
                         poll_inspect loads literal_eval (fetch svc event_id) [0..<30] 0)))"

section \<open>Notions for stating the properties\<close>

text \<open>The payloads of the frames among the lines of a response, in order.\<close>

definition frames :: "string list \<Rightarrow> string list" where
  "frames lines = map (drop 6) (filter (\<lambda>l. startswith l ''data: '') lines)"

text \<open>Every frame of the text carries the sentinel \<^verbatim>\<open>null\<close>.\<close>

definition only_pending :: "string \<Rightarrow> bool" where
  "only_pending t = list_all (\<lambda>d. d = ''null'') (frames (split newline t))"

text \<open>
  An attempt after which the loop goes on: the GET returned, and either the status is not
  200 or no frame of the response ended the run (and, for the HTTP script, the attempt is
  not the last one, where the timeout is reported).
\<close>

definition quiet_http :: "parser \<Rightarrow> nat \<Rightarrow> (nat \<Rightarrow> py_exception + get_response) \<Rightarrow> nat \<Rightarrow> bool" where
  "quiet_http loads m get j =
     (case get j of
        Inl e \<Rightarrow> False
      | Inr r \<Rightarrow> status_code r \<noteq> 200 \<or>
          (for_lines (handle_data_http loads) (split newline (strip (body r))) = Continue
            \<and> Suc j \<noteq> m))"

definition quiet_logging ::
  "parser \<Rightarrow> string option \<Rightarrow> (nat \<Rightarrow> py_exception + get_response) \<Rightarrow> nat \<Rightarrow> bool"
where
  "quiet_logging loads target_text get j =
     (case get j of
        Inl e \<Rightarrow> False
      | Inr r \<Rightarrow> status_code r \<noteq> 200 \<or>
          for_lines (handle_data_logging loads target_text) (split newline (body r)) = Continue)"

text \<open>
  The submission was answered with status 200 and a JSON object, whose
  \<^verbatim>\<open>event_id\<close> (None when it has none) is the handle.
\<close>

definition handle_given :: "service \<Rightarrow> pyval \<Rightarrow> bool" where
  "handle_given svc event_id =
     (case submit svc of
        Inl e \<Rightarrow> False
      | Inr response \<Rightarrow> post_status response = 200 \<and>
          (case post_json response of
             Inl e \<Rightarrow> False
           | Inr result \<Rightarrow> py_get result ''event_id'' PNone = Inr event_id))"


text \<open>
  The test of the scripts on a parsed frame:
  \<^verbatim>\<open>isinstance(parsed, list) and len(parsed) >= 2\<close>.
\<close>

definition raw_result :: "pyval \<Rightarrow> bool" where
  "raw_result v = (case v of PList xs \<Rightarrow> 2 \<le> length xs | _ \<Rightarrow> False)"

text \<open>
  Among the frames of the lines there is one that is not the sentinel and that the parser
  turns into a list of at least two members.
\<close>

definition terminal_frame_in :: "parser \<Rightarrow> string list \<Rightarrow> bool" where
  "terminal_frame_in loads lines =
     list_ex (\<lambda>d. d \<noteq> ''null'' \<and> (case loads d of None \<Rightarrow> False | Some v \<Rightarrow> raw_result v))
       (frames lines)"


text \<open>
  The filter in the words of the specification: the text of a field of an element (empty
  when the field is absent or holds no string), \<open>t\<close> occurring in \<open>s\<close> as a substring, and an
  element whose content or source contains the target when all are put in lower case.
\<close>

definition field_text :: "pyval \<Rightarrow> string \<Rightarrow> string" where
  "field_text elem key =
     (case elem of
        PDict kvs \<Rightarrow> (case map_of kvs key of Some (PStr s) \<Rightarrow> s | _ \<Rightarrow> [])
      | _ \<Rightarrow> [])"

definition contains :: "string \<Rightarrow> string \<Rightarrow> bool" where
  "contains s t = (\<exists>p q. s = p @ t @ q)"

definition matches_target :: "string \<Rightarrow> pyval \<Rightarrow> bool" where
  "matches_target target elem =
     (contains (lower (field_text elem ''content'')) (lower target)
      \<or> contains (lower (field_text elem ''source'')) (lower target))"

subsection \<open>Sample services\<close>

text \<open>
  A parser known on finitely many texts. A text outside the table is taken as not
  parseable, so in a sample run every text that reaches the parser is in the table with the
  value \<^verbatim>\<open>json.loads\<close> gives it, or is not JSON.
\<close>

definition parser_of :: "(string \<times> pyval) list \<Rightarrow> parser" where
  "parser_of table s = map_of table s"

definition json_sample :: parser where
  \<open>json_sample = parser_of
     [(''null'', PNone),
      (''[]'', PList []),
      (''[{}]'', PList [PDict []]),
      (''[7]'', PList [PInt 7]),
      (''{"msg": "queued"}'', PDict [(''msg'', PStr ''queued'')]),
      (''[0, "[]"]'', PList [PInt 0, PStr ''[]'']),
      (''[0, "[{}]"]'', PList [PInt 0, PStr ''[{}]'']),
      (''[0, []]'', PList [PInt 0, PList []]),
      (''[0, [{"content": "OK button"}, {"source": "box_ocr"}]]'',
         PList [PInt 0, PList [PDict [(''content'', PStr ''OK button'')],
                               PDict [(''source'', PStr ''box_ocr'')]]]),
      (''[0, "[{'type': 'icon', 'interactivity': True}]"]'',
         PList [PInt 0, PStr ''[{'type': 'icon', 'interactivity': True}]'']),
      (''[{"type": "icon", "interactivity": true}]'',
         PList [PDict [(''type'', PStr ''icon''), (''interactivity'', PBool True)]])]\<close>

definition literal_sample :: parser where
  \<open>literal_sample = parser_of
     [(''[{'type': 'icon', 'interactivity': True}]'',
         PList [PDict [(''type'', PStr ''icon''), (''interactivity'', PBool True)]])]\<close>

definition accepted :: "pyval \<Rightarrow> py_exception + post_response" where
  "accepted result = Inr \<lparr>post_status = 200, post_json = Inr result\<rparr>"

definition answer :: "nat \<Rightarrow> string \<Rightarrow> py_exception + get_response" where
  "answer st t = Inr \<lparr>status_code = st, body = t\<rparr>"

text \<open>The service that answers every GET with a heartbeat and the sentinel.\<close>

definition svc_pending :: service where
  "svc_pending =
     \<lparr>submit = accepted (PDict [(''event_id'', PStr ''abc'')]),
      fetch = (\<lambda>event_id k.
        answer 200 (''event: heartbeat'' @ [newline] @ ''data: null'' @ [newline, newline]))\<rparr>"

text \<open>
  The first response carries a frame that is not JSON, the later ones a result with one
  element.
\<close>

definition svc_malformed :: service where
  \<open>svc_malformed =
     \<lparr>submit = accepted (PDict [(''event_id'', PStr ''abc'')]),
      fetch = (\<lambda>event_id k.
        if k = 0 then answer 200 ''data: {oops'' else answer 200 ''data: [0, "[{}]"]'')\<rparr>\<close>

text \<open>A parser that would take the sentinel for a result, were it ever asked.\<close>

definition null_as_result :: parser where
  "null_as_result = parser_of [(''null'', PList [PInt 0, PList [PDict []]])]"

text \<open>
  The submission is answered with an object that has no \<^verbatim>\<open>event_id\<close>;
  the result URL that ends in \<^verbatim>\<open>None\<close> answers with a result.
\<close>

definition svc_no_handle :: service where
  \<open>svc_no_handle =
     \<lparr>submit = accepted (PDict [(''msg'', PStr ''queued'')]),
      fetch = (\<lambda>event_id k.
        if event_id = PNone then answer 200 ''data: [0, "[{}]"]'' else answer 404 ''Not Found'')\<rparr>\<close>




text \<open>
  The first response carries a list of one member and an object, the second a result with
  one element.
\<close>

definition svc_short_then_result :: service where
  \<open>svc_short_then_result =
     \<lparr>submit = accepted (PDict [(''event_id'', PStr ''abc'')]),
      fetch = (\<lambda>event_id k.
        if k = 0 then answer 200 (''data: [7]'' @ [newline] @ ''data: {"msg": "queued"}'')
        else answer 200 ''data: [0, "[{}]"]'')\<rparr>\<close>

text \<open>The first response is pending, the second carries a result with no element.\<close>

definition svc_empty_result :: service where
  \<open>svc_empty_result =
     \<lparr>submit = accepted (PDict [(''event_id'', PStr ''abc'')]),
      fetch = (\<lambda>event_id k.
        if k = 0 then answer 200 (''event: heartbeat'' @ [newline] @ ''data: null'')
        else answer 200 (''event: complete'' @ [newline] @ ''data: [0, "[]"]''))\<rparr>\<close>

text \<open>
  Every response carries a result with two elements, one with a content, one with a source.
\<close>

definition svc_two_elements :: service where
  \<open>svc_two_elements =
     \<lparr>submit = accepted (PDict [(''event_id'', PStr ''abc'')]),
      fetch = (\<lambda>event_id k.
        answer 200 ''data: [0, [{"content": "OK button"}, {"source": "box_ocr"}]]'')\<rparr>\<close>

section \<open>The library parsers\<close>

text \<open>
  Modelled from the spec: \<^verbatim>\<open>json.loads\<close> and \<^verbatim>\<open>ast.literal_eval\<close> are library
  functions, not code of the repository, and the functions above take them as parameters.
  What the fallback of the inspector yields depends on what the two parsers return, so both
  are modelled here: a strict JSON parser and, in the spec's words, "a permissive
  literal-structure parser that accepts single-quoted keys/strings and Python-literal-like
  booleans". They follow the two documented grammars on the values the service sends: lists,
  dicts with string keys, strings without escape sequences, numbers in the syntax of JSON,
  booleans and the null value. The two parsers differ in the lexer only, by its dialect.
\<close>

datatype dialect = Strict | Literal

datatype quote = Single | Double

datatype token =
    Open_list | Close_list | Open_dict | Close_dict | Comma | Colon
  | Text quote string
  | Number string
  | Truth bool
  | Nothing

text \<open>
  Modelled from the spec: the character classes of the two grammars. White space is a space,
  a tab, a line feed or a carriage return; a character of a string is any character but the
  backslash and the control characters (no escape sequence is modelled).
\<close>

definition blank :: "char \<Rightarrow> bool" where
  "blank c = (c \<in> set [CHR '' '', CHR 0x09, CHR 0x0A, CHR 0x0D])"

definition digit :: "char \<Rightarrow> bool" where
  "digit c = (c \<in> set ''0123456789'')"

definition number_char :: "char \<Rightarrow> bool" where
  "number_char c = (c \<in> set ''0123456789+-.eE'')"

definition letter :: "char \<Rightarrow> bool" where
  "letter c = (c \<in> set ''abcdefghijklmnopqrstuvwxyzABCDEFGHIJKLMNOPQRSTUVWXYZ'')"

definition mark :: "quote \<Rightarrow> char" where
  "mark q = (case q of Single \<Rightarrow> CHR 0x27 | Double \<Rightarrow> CHR 0x22)"

definition plain :: "char \<Rightarrow> bool" where
  "plain c = (c \<noteq> CHR 0x5C \<and> 32 \<le> (of_char c :: nat))"

text \<open>
  Modelled from the spec: the number syntax of JSON, an optional minus, an integer part
  without leading zero, an optional fraction and an optional exponent.
\<close>

definition digits_then :: "(string \<Rightarrow> bool) \<Rightarrow> string \<Rightarrow> bool" where
  "digits_then rest s = (takeWhile digit s \<noteq> [] \<and> rest (dropWhile digit s))"

definition exponent_syntax :: "string \<Rightarrow> bool" where
  "exponent_syntax s =
     (case s of
        [] \<Rightarrow> True
      | c # cs \<Rightarrow> (c = CHR ''e'' \<or> c = CHR ''E'') \<and>
          (case cs of
             [] \<Rightarrow> False
           | x # xs \<Rightarrow> if x = CHR ''+'' \<or> x = CHR ''-'' then digits_then (\<lambda>r. r = []) xs
                       else digits_then (\<lambda>r. r = []) cs))"

definition fraction_syntax :: "string \<Rightarrow> bool" where
  "fraction_syntax s =
     (case s of
        c # cs \<Rightarrow> if c = CHR ''.'' then digits_then exponent_syntax cs else exponent_syntax s
      | [] \<Rightarrow> True)"

definition number_syntax :: "string \<Rightarrow> bool" where
  "number_syntax s =
     (let u = (case s of c # cs \<Rightarrow> if c = CHR ''-'' then cs else s | [] \<Rightarrow> s);
          whole = takeWhile digit u
      in (whole = ''0'' \<or> (whole \<noteq> [] \<and> hd whole \<noteq> CHR ''0''))
         \<and> fraction_syntax (dropWhile digit u))"

text \<open>
  Modelled from the spec: the words of each dialect. \<^verbatim>\<open>json.loads\<close> knows
  \<^verbatim>\<open>true\<close>, \<^verbatim>\<open>false\<close> and \<^verbatim>\<open>null\<close>; \<^verbatim>\<open>ast.literal_eval\<close> knows \<^verbatim>\<open>True\<close>,
  \<^verbatim>\<open>False\<close> and \<^verbatim>\<open>None\<close>, and each rejects the words of the other. A string ends at
  the next quotation mark of its kind; the strict dialect has no single-quoted string.
  \<^term>\<open>next_token\<close> reads one token, or skips one character of white space, and gives the
  rest of the text.
\<close>

definition keyword :: "dialect \<Rightarrow> string \<Rightarrow> token option" where
  "keyword d w =
     (case d of
        Strict \<Rightarrow>
          (if w = ''true'' then Some (Truth True)
           else if w = ''false'' then Some (Truth False)
           else if w = ''null'' then Some Nothing else None)
      | Literal \<Rightarrow>
          (if w = ''True'' then Some (Truth True)
           else if w = ''False'' then Some (Truth False)
           else if w = ''None'' then Some Nothing else None))"

definition quoted :: "quote \<Rightarrow> string \<Rightarrow> (token option \<times> string) option" where
  "quoted q cs =
     (let body = takeWhile (\<lambda>x. x \<noteq> mark q) cs;
          rest = dropWhile (\<lambda>x. x \<noteq> mark q) cs
      in if rest = [] \<or> \<not> list_all plain body then None
         else Some (Some (Text q body), tl rest))"

definition next_token :: "dialect \<Rightarrow> char \<Rightarrow> string \<Rightarrow> (token option \<times> string) option" where
  "next_token d c cs =
     (if blank c then Some (None, cs)
      else if c = CHR ''['' then Some (Some Open_list, cs)
      else if c = CHR '']'' then Some (Some Close_list, cs)
      else if c = CHR ''{'' then Some (Some Open_dict, cs)
      else if c = CHR ''}'' then Some (Some Close_dict, cs)
      else if c = CHR '','' then Some (Some Comma, cs)
      else if c = CHR '':'' then Some (Some Colon, cs)
      else if c = CHR 0x22 then quoted Double cs
      else if c = CHR 0x27 then (if d = Strict then None else quoted Single cs)
      else if digit c \<or> c = CHR ''-'' then
        (if number_syntax (c # takeWhile number_char cs)
         then Some (Some (Number (c # takeWhile number_char cs)), dropWhile number_char cs)
         else None)
      else if letter c then
        (case keyword d (c # takeWhile letter cs) of
           None \<Rightarrow> None
         | Some t \<Rightarrow> Some (Some t, dropWhile letter cs))
      else None)"

text \<open>
  Modelled from the spec: the lexer. It fails where no token starts.
\<close>

function scan :: "dialect \<Rightarrow> string \<Rightarrow> token list option" where
  "scan d [] = Some []"
| "scan d (c # cs) =
     (case next_token d c cs of
        None \<Rightarrow> None
      | Some (t, rest) \<Rightarrow>
          (case scan d rest of
             None \<Rightarrow> None
           | Some ts \<Rightarrow> Some (case t of None \<Rightarrow> ts | Some tok \<Rightarrow> tok # ts)))"
  by pat_completeness auto
termination
proof (relation "measure (\<lambda>(d, s). length s)")
  show "wf (measure (\<lambda>(d, s). length s))"
    by simp
next
  fix d c cs x t rest
  assume "next_token d c cs = Some x" and "(t, rest) = x"
  then have n: "next_token d c cs = Some (t, rest)"
    by simp
  have q: "length r \<le> length cs" if "quoted q cs = Some (u, r)" for q u r
  proof -
    have "length (tl (dropWhile (\<lambda>x. x \<noteq> mark q) cs)) \<le> length cs"
      using length_dropWhile_le [of "\<lambda>x. x \<noteq> mark q" cs] by simp
    then show ?thesis
      using that by (auto simp: quoted_def Let_def split: if_splits)
  qed
  have "rest = cs \<or> rest = dropWhile number_char cs \<or> rest = dropWhile letter cs
      \<or> quoted Double cs = Some (t, rest) \<or> quoted Single cs = Some (t, rest)"
    using n unfolding next_token_def by (simp split: if_splits option.splits)
  then have "length rest \<le> length cs"
    using q [of Double t rest] q [of Single t rest] length_dropWhile_le [of number_char cs]
      length_dropWhile_le [of letter cs]
    by auto
  then show "((d, rest), (d, c # cs)) \<in> measure (\<lambda>(d, s). length s)"
    by simp
qed









subsection \<open>Texts in literal syntax\<close>








text \<open>
  Modelled from the spec: what the lexer guarantees of a string and of a number.
\<close>

definition numeric :: "string \<Rightarrow> bool" where
  "numeric x =
     (case x of
        [] \<Rightarrow> False
      | c # cs \<Rightarrow> (digit c \<or> c = CHR ''-'') \<and> list_all number_char cs \<and> number_syntax x)"

fun lexed :: "token \<Rightarrow> bool" where
  "lexed (Text q s) = (list_all plain s \<and> mark q \<notin> set s)"
| "lexed (Number x) = numeric x"
| "lexed t = True"

text \<open>
  Modelled from the spec: "the equivalent valid JSON" of a text in literal syntax, its
  tokens written in JSON one after the other, each followed by a space.
\<close>

definition as_json :: "token \<Rightarrow> string" where
  "as_json t =
     (case t of
        Open_list \<Rightarrow> ''[''
      | Close_list \<Rightarrow> '']''
      | Open_dict \<Rightarrow> ''{''
      | Close_dict \<Rightarrow> ''}''
      | Comma \<Rightarrow> '',''
      | Colon \<Rightarrow> '':''
      | Text q s \<Rightarrow> CHR 0x22 # s @ [CHR 0x22]
      | Number x \<Rightarrow> x
      | Truth b \<Rightarrow> (if b then ''true'' else ''false'')
      | Nothing \<Rightarrow> ''null'')"



text \<open>
  Modelled from the spec: a text in literal syntax for given tokens, each written as
  \<^verbatim>\<open>ast.literal_eval\<close> reads it (a string in its own quotation marks, the words
  capitalised) and followed by a space.
\<close>

definition as_literal :: "token \<Rightarrow> string" where
  "as_literal t =
     (case t of
        Text q s \<Rightarrow> mark q # s @ [mark q]
      | Truth b \<Rightarrow> (if b then ''True'' else ''False'')
      | Nothing \<Rightarrow> ''None''
      | _ \<Rightarrow> as_json t)"

definition literal_text :: "token list \<Rightarrow> string" where
  "literal_text ts = concat (map (\<lambda>t. as_literal t @ '' '') ts)"

section \<open>The line loop and the polling loops\<close>

text \<open>The definitions unfolded when a sample run is evaluated.\<close>

lemmas string_defs = strip_def isspace_def newline_def startswith_def

lemmas builtin_defs = then_do_def py_get_def py_len_def py_slice_to_def py_iter_def
  py_or_def py_truthy_def format_2f_def

lemmas sample_defs = json_sample_def literal_sample_def parser_of_def accepted_def answer_def

lemmas http_defs = test_omniparser_def handle_data_http_def result_http_def
  print_elements_http_def print_elem_http_def except_http_def

lemmas logging_defs = test_omniparser_with_logging_def handle_data_logging_def
  result_logging_def report_logging_def print_elem_logging_def filter_logging_def
  lowered_def print_match_def

lemma for_lines_pending:
  assumes "list_all (\<lambda>d. d = ''null'') (frames lines)" and "handle ''null'' = Continue"
  shows "for_lines handle lines = Continue"
  using assms by (induction lines) (auto simp: frames_def startswith_def)

lemma poll_http_step:
  assumes "k < m" and "quiet_http loads m get k"
  shows "poll_http loads get m [k..<m] k = poll_http loads get m [Suc k..<m] (Suc k)"
proof -
  obtain r where r: "get k = Inr r"
    using assms(2) by (auto simp: quiet_http_def split: sum.splits)
  have q: "status_code r \<noteq> 200 \<or>
      (for_lines (handle_data_http loads) (split newline (strip (body r))) = Continue
        \<and> Suc k \<noteq> m)"
    using assms(2) r by (simp add: quiet_http_def)
  have ne: "int k \<noteq> int m - 1" if "Suc k \<noteq> m"
    using that by linarith
  show ?thesis
    using assms(1) r q ne by (auto simp: upt_conv_Cons)
qed

lemma poll_http_quiet:
  "i \<le> k \<Longrightarrow> k \<le> m \<Longrightarrow> (\<forall>j. i \<le> j \<and> j < k \<longrightarrow> quiet_http loads m get j)
    \<Longrightarrow> poll_http loads get m [i..<m] i = poll_http loads get m [k..<m] k"
proof (induction k)
  case 0
  then show ?case by simp
next
  case (Suc k)
  show ?case
  proof (cases "i = Suc k")
    case True
    then show ?thesis by simp
  next
    case False
    with Suc.prems have ik: "i \<le> k" and km: "k < m" by simp_all
    have "\<forall>j. i \<le> j \<and> j < k \<longrightarrow> quiet_http loads m get j"
      using Suc.prems(3) by simp
    then have IH: "poll_http loads get m [i..<m] i = poll_http loads get m [k..<m] k"
      using Suc.IH ik km by simp
    have "quiet_http loads m get k"
      using Suc.prems(3) ik by simp
    then show ?thesis
      using IH poll_http_step [OF km] by simp
  qed
qed

lemma poll_logging_step:
  assumes "k < m" and "quiet_logging loads target_text get k"
  shows "poll_logging loads target_text get [k..<m] k
       = poll_logging loads target_text get [Suc k..<m] (Suc k)"
proof -
  obtain r where r: "get k = Inr r"
    using assms(2) by (auto simp: quiet_logging_def split: sum.splits)
  have "status_code r \<noteq> 200 \<or>
      for_lines (handle_data_logging loads target_text) (split newline (body r)) = Continue"
    using assms(2) r by (simp add: quiet_logging_def)
  then show ?thesis
    using assms(1) r by (auto simp: upt_conv_Cons)
qed

lemma poll_logging_quiet:
  "i \<le> k \<Longrightarrow> k \<le> m \<Longrightarrow> (\<forall>j. i \<le> j \<and> j < k \<longrightarrow> quiet_logging loads target_text get j)
    \<Longrightarrow> poll_logging loads target_text get [i..<m] i
      = poll_logging loads target_text get [k..<m] k"
proof (induction k)
  case 0
  then show ?case by simp
next
  case (Suc k)
  show ?case
  proof (cases "i = Suc k")
    case True
    then show ?thesis by simp
  next
    case False
    with Suc.prems have ik: "i \<le> k" and km: "k < m" by simp_all
    have "\<forall>j. i \<le> j \<and> j < k \<longrightarrow> quiet_logging loads target_text get j"
      using Suc.prems(3) by simp
    then have IH: "poll_logging loads target_text get [i..<m] i
        = poll_logging loads target_text get [k..<m] k"
      using Suc.IH ik km by simp
    have "quiet_logging loads target_text get k"
      using Suc.prems(3) ik by simp
    then show ?thesis
      using IH poll_logging_step [OF km] by simp
  qed
qed

lemma for_lines_append:
  "for_lines handle (pre @ post) =
     (case for_lines handle pre of Continue \<Rightarrow> for_lines handle post | r \<Rightarrow> r)"
  by (induction pre) (auto split: frame.splits)

lemma for_lines_skip:
  assumes "handle d = Continue"
  shows "for_lines handle (pre @ (''data: '' @ d) # post) = for_lines handle (pre @ post)"
  using assms by (simp add: for_lines_append startswith_def split: frame.splits)

lemma for_lines_all_continue:
  assumes "list_all (\<lambda>d. handle d = Continue) (frames lines)"
  shows "for_lines handle lines = Continue"
  using assms by (induction lines) (auto simp: frames_def)

lemma for_lines_decided:
  assumes "for_lines handle lines \<noteq> Continue"
  shows "\<exists>d \<in> set (frames lines). handle d = for_lines handle lines"
  using assms by (induction lines) (auto simp: frames_def split: frame.splits if_splits)

lemma poll_http_skip_attempt:
  assumes "get k = Inr r"
    and "list_all (\<lambda>d. handle_data_http loads d = Continue) (frames (split newline (strip (body r))))"
    and "Suc k < m"
  shows "poll_http loads get m [k..<m] k = poll_http loads get m [Suc k..<m] (Suc k)"
proof -
  have "quiet_http loads m get k"
    using assms for_lines_all_continue [OF assms(2)] by (simp add: quiet_http_def)
  then show ?thesis
    using assms(3) by (intro poll_http_step) simp_all
qed

lemma poll_logging_skip_attempt:
  assumes "get k = Inr r"
    and "list_all (\<lambda>d. handle_data_logging loads t d = Continue) (frames (split newline (body r)))"
    and "k < m"
  shows "poll_logging loads t get [k..<m] k = poll_logging loads t get [Suc k..<m] (Suc k)"
proof -
  have "quiet_logging loads t get k"
    using assms for_lines_all_continue [OF assms(2)] by (simp add: quiet_logging_def)
  then show ?thesis
    using assms(3) by (intro poll_logging_step) simp_all
qed

lemma poll_http_count:
  "n \<le> snd (poll_http loads get m is n) \<and> (is \<noteq> [] \<longrightarrow> Suc n \<le> snd (poll_http loads get m is n))"
proof (induction "is" arbitrary: n)
  case Nil
  then show ?case by simp
next
  case (Cons i rest)
  have "Suc n \<le> snd (poll_http loads get m rest (Suc n))"
    using Cons.IH [of "Suc n"] by simp
  then show ?case
    by (auto split: sum.splits frame.splits)
qed

lemma poll_logging_count:
  "n \<le> snd (poll_logging loads t get is n)
   \<and> (is \<noteq> [] \<longrightarrow> Suc n \<le> snd (poll_logging loads t get is n))"
proof (induction "is" arbitrary: n)
  case Nil
  then show ?case by simp
next
  case (Cons i rest)
  have "Suc n \<le> snd (poll_logging loads t get rest (Suc n))"
    using Cons.IH [of "Suc n"] by simp
  then show ?case
    by (auto split: sum.splits frame.splits)
qed


lemma test_omniparser_with_logging_polls:
  assumes "handle_given svc event_id"
  shows "test_omniparser_with_logging loads target_text svc
       = poll_logging loads target_text (fetch svc event_id) [0..<30] 0"
  using assms by (auto simp: handle_given_def test_omniparser_with_logging_def split: sum.splits)



lemma poll_logging_from:
  assumes "k < m" and "\<forall>j<k. quiet_logging loads t get j"
  shows "poll_logging loads t get [0..<m] 0 = poll_logging loads t get (k # [Suc k..<m]) k"
proof -
  have "poll_logging loads t get [0..<m] 0 = poll_logging loads t get [k..<m] k"
    using assms by (intro poll_logging_quiet) simp_all
  then show ?thesis
    using assms(1) by (simp add: upt_conv_Cons)
qed

lemma test_omniparser_cases:
  "(\<exists>event_id. test_omniparser loads svc = poll_http loads (fetch svc event_id) 30 [0..<30] 0)
   \<or> (\<exists>e. test_omniparser loads svc = (except_http e, 0))
   \<or> test_omniparser loads svc = (RequestFailed, 0)"
  by (auto simp: test_omniparser_def split: sum.splits)

lemma test_omniparser_with_logging_cases:
  "(\<exists>event_id. test_omniparser_with_logging loads t svc
       = poll_logging loads t (fetch svc event_id) [0..<30] 0)
   \<or> (\<exists>e. test_omniparser_with_logging loads t svc = (ExceptionCaught e, 0))
   \<or> test_omniparser_with_logging loads t svc = (BadStatus, 0)"
  by (auto simp: test_omniparser_with_logging_def split: sum.splits)

lemma poll_logging_decides:
  assumes "handle_given svc event_id" and "k < 30"
    and "\<forall>j<k. quiet_logging loads t (fetch svc event_id) j"
    and "fetch svc event_id k = Inr r" and "status_code r = 200"
    and "for_lines (handle_data_logging loads t) (split newline (body r)) = Return out"
  shows "test_omniparser_with_logging loads t svc = (out, Suc k)"
proof -
  have "poll_logging loads t (fetch svc event_id) [0..<30] 0
      = poll_logging loads t (fetch svc event_id) (k # [Suc k..<30]) k"
    using assms(2,3) by (intro poll_logging_from) simp_all
  then show ?thesis
    using assms test_omniparser_with_logging_polls [of svc event_id loads t] by simp
qed

section \<open>A frame that is not JSON\<close>

text \<open>
  C1, as the code has it. A frame whose payload \<^verbatim>\<open>json.loads\<close> rejects is skipped by the HTTP
  script (\<^verbatim>\<open>pass\<close>) and by the logging script (\<^verbatim>\<open>continue\<close>): the rest of the response
  is read as if the frame were not there, and a response whose frames are all of this kind
  is followed by the next GET call. The frame does not end the run. When the frame is a
  list of at least two members and it is the string in its second member that
  \<^verbatim>\<open>json.loads\<close> rejects, the logging script skips the frame in the same way, and the HTTP
  script prints the string raw and returns True.
\<close>

theorem malformed_frame_is_skipped:
  "(loads d = None \<longrightarrow>
      for_lines (handle_data_http loads) (pre @ (''data: '' @ d) # post)
        = for_lines (handle_data_http loads) (pre @ post)
    \<and> for_lines (handle_data_logging loads target_text) (pre @ (''data: '' @ d) # post)
        = for_lines (handle_data_logging loads target_text) (pre @ post))
 \<and> (get k = Inr r \<and> Suc k < m
      \<and> list_all (\<lambda>d. loads d = None) (frames (split newline (strip (body r)))) \<longrightarrow>
      poll_http loads get m [k..<m] k = poll_http loads get m [Suc k..<m] (Suc k))
 \<and> (get k = Inr r \<and> k < m
      \<and> list_all (\<lambda>d. loads d = None) (frames (split newline (body r))) \<longrightarrow>
      poll_logging loads target_text get [k..<m] k
        = poll_logging loads target_text get [Suc k..<m] (Suc k))
 \<and> (d \<noteq> ''null'' \<and> loads d = Some (PList xs) \<and> 2 \<le> length xs \<and> xs ! 1 = PStr inner
      \<and> loads inner = None \<longrightarrow>
      handle_data_logging loads target_text d = Continue
      \<and> handle_data_http loads d = Return (ResultReceived None))"
proof (intro conjI impI)
  assume "loads d = None"
  then have "handle_data_http loads d = Continue"
    by (simp add: handle_data_http_def)
  then show "for_lines (handle_data_http loads) (pre @ (''data: '' @ d) # post)
        = for_lines (handle_data_http loads) (pre @ post)"
    by (rule for_lines_skip)
next
  assume "loads d = None"
  then have "handle_data_logging loads target_text d = Continue"
    by (simp add: handle_data_logging_def)
  then show "for_lines (handle_data_logging loads target_text) (pre @ (''data: '' @ d) # post)
        = for_lines (handle_data_logging loads target_text) (pre @ post)"
    by (rule for_lines_skip)
next
  assume a: "get k = Inr r \<and> Suc k < m
      \<and> list_all (\<lambda>d. loads d = None) (frames (split newline (strip (body r))))"
  then have "list_all (\<lambda>d. handle_data_http loads d = Continue)
      (frames (split newline (strip (body r))))"
    by (auto simp: list_all_iff handle_data_http_def)
  then show "poll_http loads get m [k..<m] k = poll_http loads get m [Suc k..<m] (Suc k)"
    using a by (intro poll_http_skip_attempt) simp_all
next
  assume a: "get k = Inr r \<and> k < m
      \<and> list_all (\<lambda>d. loads d = None) (frames (split newline (body r)))"
  then have "list_all (\<lambda>d. handle_data_logging loads target_text d = Continue)
      (frames (split newline (body r)))"
    by (auto simp: list_all_iff handle_data_logging_def)
  then show "poll_logging loads target_text get [k..<m] k
        = poll_logging loads target_text get [Suc k..<m] (Suc k)"
    using a by (intro poll_logging_skip_attempt) simp_all
next
  assume a: "d \<noteq> ''null'' \<and> loads d = Some (PList xs) \<and> 2 \<le> length xs
      \<and> xs ! 1 = PStr inner \<and> loads inner = None"
  then show "handle_data_logging loads target_text d = Continue"
    by (simp add: handle_data_logging_def result_logging_def)
  from a show "handle_data_http loads d = Return (ResultReceived None)"
    by (simp add: handle_data_http_def result_http_def)
qed

text \<open>
  The run that refutes C1 as stated: the first non-pending frame is not parseable by either
  parser, and both scripts go on to a second GET call and end with the result.
\<close>

theorem malformed_frame_counterexample:
  "json_sample ''{oops'' = None \<and> literal_sample ''{oops'' = None
   \<and> test_omniparser json_sample svc_malformed = (ResultReceived (Some (PList [PDict []])), 2)
   \<and> test_omniparser_with_logging json_sample None svc_malformed
       = (StepsDone (PList [PDict []]) [], 2)"
  by (simp add: svc_malformed_def upt_conv_Cons string_defs builtin_defs sample_defs
      http_defs logging_defs)

theorem malformed_frame_is_skipped_witness:
  \<open>poll_http json_sample (fetch svc_malformed (PStr ''abc'')) 30 [0..<30] 0
     = poll_http json_sample (fetch svc_malformed (PStr ''abc'')) 30 [1..<30] 1
   \<and> poll_logging json_sample None (fetch svc_malformed (PStr ''abc'')) [0..<30] 0
     = poll_logging json_sample None (fetch svc_malformed (PStr ''abc'')) [1..<30] 1
   \<and> for_lines (handle_data_http json_sample) [''data: {oops'', ''data: [0, "[]"]'']
     = for_lines (handle_data_http json_sample) [''data: [0, "[]"]'']
   \<and> handle_data_logging json_sample None ''[0, "[{'type': 'icon', 'interactivity': True}]"]''
     = Continue
   \<and> handle_data_http json_sample ''[0, "[{'type': 'icon', 'interactivity': True}]"]''
     = Return (ResultReceived None)\<close>
  using malformed_frame_is_skipped [of json_sample \<open>''{oops''\<close> \<open>[]\<close> \<open>[''data: [0, "[]"]'']\<close> None
      \<open>fetch svc_malformed (PStr ''abc'')\<close> 0 \<open>\<lparr>status_code = 200, body = ''data: {oops''\<rparr>\<close> 30]
    malformed_frame_is_skipped [of json_sample
      \<open>''[0, "[{'type': 'icon', 'interactivity': True}]"]''\<close> \<open>[]\<close> \<open>[]\<close> None
      \<open>fetch svc_malformed (PStr ''abc'')\<close> 0 \<open>\<lparr>status_code = 200, body = ''data: {oops''\<rparr>\<close> 30
      \<open>[PInt 0, PStr ''[{'type': 'icon', 'interactivity': True}]'']\<close>
      \<open>''[{'type': 'icon', 'interactivity': True}]''\<close>]
  by (simp add: svc_malformed_def frames_def string_defs sample_defs)

section \<open>A service that is always pending\<close>

text \<open>
  C2. When the submission is accepted and each of the thirty poll responses has status 200
  and carries nothing but the sentinel (under the HTTP script's reading of the body, which
  strips it first, and under the logging script's), both scripts make exactly thirty GET
  calls (\<^verbatim>\<open>max_attempts = 30\<close>) and report the timeout.
\<close>

theorem always_pending_times_out:
  assumes "submit svc = Inr response"
    and "post_status response = 200"
    and "post_json response = Inr result"
    and "py_get result ''event_id'' PNone = Inr event_id"
    and "\<forall>k<30. \<exists>r. fetch svc event_id k = Inr r \<and> status_code r = 200
            \<and> only_pending (strip (body r)) \<and> only_pending (body r)"
  shows "test_omniparser loads svc = (TimeoutWaiting, 30)
       \<and> test_omniparser_with_logging loads target_text svc = (TimedOut, 30)"
proof -
  let ?get = "fetch svc event_id"
  have resp: "\<exists>r. ?get k = Inr r \<and> status_code r = 200
      \<and> only_pending (strip (body r)) \<and> only_pending (body r)" if "k < 30" for k
    using assms(5) that by simp
  have http_lines: "for_lines (handle_data_http loads) (split newline (strip (body r))) = Continue"
    if "only_pending (strip (body r))" for r
    using that by (intro for_lines_pending) (simp_all add: only_pending_def handle_data_http_def)
  have logging_lines:
    "for_lines (handle_data_logging loads target_text) (split newline (body r)) = Continue"
    if "only_pending (body r)" for r
    using that by (intro for_lines_pending) (simp_all add: only_pending_def handle_data_logging_def)
  have qh: "quiet_http loads 30 ?get j" if "j < 29" for j
  proof -
    have "j < 30"
      using that by simp
    then obtain r where r: "?get j = Inr r" and p: "only_pending (strip (body r))"
      using resp by blast
    show ?thesis
      using that r http_lines [OF p] by (simp add: quiet_http_def)
  qed
  have ql: "quiet_logging loads target_text ?get j" if j: "j < 30" for j
  proof -
    obtain r where r: "?get j = Inr r" and p: "only_pending (body r)"
      using resp [OF j] by blast
    show ?thesis
      using r logging_lines [OF p] by (simp add: quiet_logging_def)
  qed
  have "poll_http loads ?get 30 [0..<30] 0 = poll_http loads ?get 30 [29..<30] 29"
    using qh by (intro poll_http_quiet) simp_all
  moreover have "poll_http loads ?get 30 [29..<30] 29 = (TimeoutWaiting, 30)"
  proof -
    have "(29::nat) < 30"
      by simp
    then obtain r where r: "?get 29 = Inr r" "status_code r = 200"
      and p: "only_pending (strip (body r))"
      using resp by blast
    show ?thesis
      using r http_lines [OF p] by (simp add: upt_conv_Cons)
  qed
  ultimately have http: "poll_http loads ?get 30 [0..<30] 0 = (TimeoutWaiting, 30)"
    by simp
  have "poll_logging loads target_text ?get [0..<30] 0
      = poll_logging loads target_text ?get [30..<30] 30"
    using ql by (intro poll_logging_quiet) simp_all
  then have logging: "poll_logging loads target_text ?get [0..<30] 0 = (TimedOut, 30)"
    by simp
  show ?thesis
    using assms(1-4) http logging
    by (simp add: test_omniparser_def test_omniparser_with_logging_def)
qed

theorem always_pending_times_out_witness:
  "test_omniparser json_sample svc_pending = (TimeoutWaiting, 30)
   \<and> test_omniparser_with_logging json_sample None svc_pending = (TimedOut, 30)"
proof -
  have body: "only_pending (strip (''event: heartbeat'' @ [newline] @ ''data: null'' @ [newline, newline]))
    \<and> only_pending (''event: heartbeat'' @ [newline] @ ''data: null'' @ [newline, newline])"
    by (simp add: only_pending_def strip_def isspace_def newline_def frames_def startswith_def)
  show ?thesis
    using body
    by (intro always_pending_times_out
          [of svc_pending "\<lparr>post_status = 200, post_json = Inr (PDict [(''event_id'', PStr ''abc'')])\<rparr>"
              "PDict [(''event_id'', PStr ''abc'')]" "PStr ''abc''"])
       (simp_all add: svc_pending_def accepted_def answer_def py_get_def)
qed

section \<open>The fallback parser of the inspector\<close>













text \<open>
  The strict lexer reads the JSON text of well-formed tokens back into them, with every
  string double-quoted.
\<close>

lemma scan_blank: "scan d (CHR '' '' # rest) = scan d rest"
  by (simp add: next_token_def blank_def split: option.splits)

lemma scan_token:
  assumes "next_token d c cs = Some (Some t, CHR '' '' # rest)"
  shows "scan d (c # cs) = map_option ((#) t) (scan d rest)"
  using assms scan_blank [of d rest]
  by (simp del: scan.simps add: scan.simps(2) [of d c cs] split: option.splits)

lemma takeWhile_stop:
  assumes "list_all P xs" and "\<not> P y"
  shows "takeWhile P (xs @ y # ys) = xs" and "dropWhile P (xs @ y # ys) = y # ys"
  using assms by (induction xs) simp_all

lemma digit_chars:
  assumes "digit c \<or> c = CHR ''-''"
  shows "\<not> blank c" and "c \<noteq> CHR ''[''" and "c \<noteq> CHR '']''" and "c \<noteq> CHR ''{''"
    and "c \<noteq> CHR ''}''" and "c \<noteq> CHR '',''" and "c \<noteq> CHR '':''" and "c \<noteq> CHR 0x22"
    and "c \<noteq> CHR 0x27"
  using assms by (auto simp: digit_def blank_def)

lemma next_token_number:
  assumes "numeric (c # cs)"
  shows "next_token d c (cs @ CHR '' '' # rest) = Some (Some (Number (c # cs)), CHR '' '' # rest)"
proof -
  have c: "digit c \<or> c = CHR ''-''" and cs: "list_all number_char cs"
    and syn: "number_syntax (c # cs)"
    using assms by (simp_all add: numeric_def)
  have "\<not> number_char (CHR '' '')"
    by (simp add: number_char_def)
  then have t: "takeWhile number_char (cs @ CHR '' '' # rest) = cs"
    and r: "dropWhile number_char (cs @ CHR '' '' # rest) = CHR '' '' # rest"
    using takeWhile_stop [of number_char cs "CHR '' ''" rest] cs by simp_all
  show ?thesis
    unfolding next_token_def t r using digit_chars [OF c] c syn by simp
qed











text \<open>
  Texts in literal syntax exist for all well-formed tokens: the permissive lexer reads
  \<^term>\<open>literal_text ts\<close> back into \<open>ts\<close>.
\<close>

lemma next_token_quoted:
  assumes "list_all plain s" and "mark q \<notin> set s"
  shows "next_token Literal (mark q) (s @ mark q # CHR '' '' # rest)
       = Some (Some (Text q s), CHR '' '' # rest)"
proof -
  have "list_all (\<lambda>x. x \<noteq> mark q) s"
    using assms(2) by (auto simp: list_all_iff)
  then have "takeWhile (\<lambda>x. x \<noteq> mark q) (s @ mark q # CHR '' '' # rest) = s"
    and "dropWhile (\<lambda>x. x \<noteq> mark q) (s @ mark q # CHR '' '' # rest)
       = mark q # CHR '' '' # rest"
    using takeWhile_stop [of "\<lambda>x. x \<noteq> mark q" s "mark q" "CHR '' '' # rest"] by simp_all
  then have "quoted q (s @ mark q # CHR '' '' # rest)
      = Some (Some (Text q s), CHR '' '' # rest)"
    using assms(1) by (simp add: quoted_def)
  then show ?thesis
    by (cases q) (simp_all add: next_token_def blank_def mark_def)
qed

lemma next_token_literal_word:
  "next_token Literal (CHR ''T'') (''rue'' @ CHR '' '' # rest)
     = Some (Some (Truth True), CHR '' '' # rest)"
  "next_token Literal (CHR ''F'') (''alse'' @ CHR '' '' # rest)
     = Some (Some (Truth False), CHR '' '' # rest)"
  "next_token Literal (CHR ''N'') (''one'' @ CHR '' '' # rest)
     = Some (Some Nothing, CHR '' '' # rest)"
  by (simp_all add: next_token_def blank_def digit_def letter_def keyword_def)

lemma scan_as_literal:
  assumes "lexed t"
  shows "scan Literal (as_literal t @ CHR '' '' # rest) = map_option ((#) t) (scan Literal rest)"
proof (cases t)
  case (Text q s)
  then show ?thesis
    using assms next_token_quoted [of s q rest]
      scan_token [of Literal "mark q" "s @ mark q # CHR '' '' # rest" "Text q s" rest]
    by (simp add: as_literal_def)
next
  case (Number x)
  then obtain c cs where x: "x = c # cs"
    using assms(1) by (cases x) (simp_all add: numeric_def)
  show ?thesis
    using assms Number x next_token_number [of c cs Literal rest]
      scan_token [of Literal c "cs @ CHR '' '' # rest" "Number (c # cs)" rest]
    by (simp add: as_literal_def as_json_def)
next
  case (Truth b)
  then show ?thesis
    using next_token_literal_word(1,2) [of rest]
      scan_token [of Literal "CHR ''T''" "''rue'' @ CHR '' '' # rest" "Truth True" rest]
      scan_token [of Literal "CHR ''F''" "''alse'' @ CHR '' '' # rest" "Truth False" rest]
    by (cases b) (simp_all add: as_literal_def)
next
  case Nothing
  then show ?thesis
    using next_token_literal_word(3) [of rest]
      scan_token [of Literal "CHR ''N''" "''one'' @ CHR '' '' # rest" Nothing rest]
    by (simp add: as_literal_def)
qed (simp_all add: as_literal_def as_json_def next_token_def blank_def scan_blank split: option.splits)

lemma literal_text_scans:
  assumes "list_all lexed ts"
  shows "scan Literal (literal_text ts) = Some ts"
  using assms
proof (induction ts)
  case Nil
  then show ?case by (simp add: literal_text_def)
next
  case (Cons t ts)
  have "literal_text (t # ts) = as_literal t @ CHR '' '' # literal_text ts"
    by (simp add: literal_text_def)
  then show ?case
    using Cons scan_as_literal [of t "literal_text ts"] by simp
qed



section \<open>Errors of the GET calls\<close>




section \<open>A submission response without an event id\<close>

text \<open>
  C5, as the code has it. \<^verbatim>\<open>result.get('event_id')\<close> is None when the response object has
  no such field, and no script tests it: the polling phase runs with the handle None (the
  result URL ends in \<^verbatim>\<open>/None\<close>) and makes at least one GET call.
\<close>

theorem missing_handle_polls_none:
  assumes "submit svc = Inr response"
    and "post_status response = 200"
    and "post_json response = Inr (PDict kvs)"
    and "map_of kvs ''event_id'' = None"
  shows "test_omniparser loads svc = poll_http loads (fetch svc PNone) 30 [0..<30] 0
       \<and> 1 \<le> snd (test_omniparser loads svc)
       \<and> test_omniparser_with_logging loads target_text svc
           = poll_logging loads target_text (fetch svc PNone) [0..<30] 0
       \<and> 1 \<le> snd (test_omniparser_with_logging loads target_text svc)"
proof -
  have h: "test_omniparser loads svc = poll_http loads (fetch svc PNone) 30 [0..<30] 0"
    using assms by (simp add: test_omniparser_def py_get_def)
  have l: "test_omniparser_with_logging loads target_text svc
      = poll_logging loads target_text (fetch svc PNone) [0..<30] 0"
    using assms by (simp add: test_omniparser_with_logging_def py_get_def)
  have "[0..<30::nat] \<noteq> []"
    by simp
  then have "1 \<le> snd (poll_http loads (fetch svc PNone) 30 [0..<30] 0)"
    and "1 \<le> snd (poll_logging loads target_text (fetch svc PNone) [0..<30] 0)"
    using poll_http_count [of 0 loads "fetch svc PNone" 30 "[0..<30]"]
      poll_logging_count [of 0 loads target_text "fetch svc PNone" "[0..<30]"]
    by simp_all
  with h l show ?thesis
    by simp
qed

text \<open>
  The run that refutes C5 as stated: the response object has no event id, and both scripts
  poll and end with the result after one GET call.
\<close>

theorem missing_handle_counterexample:
  "test_omniparser json_sample svc_no_handle = (ResultReceived (Some (PList [PDict []])), 1)
   \<and> test_omniparser_with_logging json_sample None svc_no_handle
       = (StepsDone (PList [PDict []]) [], 1)"
  by (simp add: svc_no_handle_def upt_conv_Cons string_defs builtin_defs sample_defs
      http_defs logging_defs)

theorem missing_handle_polls_none_witness:
  "test_omniparser json_sample svc_no_handle
     = poll_http json_sample (fetch svc_no_handle PNone) 30 [0..<30] 0
   \<and> 1 \<le> snd (test_omniparser json_sample svc_no_handle)
   \<and> test_omniparser_with_logging json_sample None svc_no_handle
     = poll_logging json_sample None (fetch svc_no_handle PNone) [0..<30] 0
   \<and> 1 \<le> snd (test_omniparser_with_logging json_sample None svc_no_handle)"
proof -
  let ?response = "\<lparr>post_status = 200, post_json = Inr (PDict [(''msg'', PStr ''queued'')])\<rparr>"
  have s: "submit svc_no_handle = Inr ?response"
    by (simp add: svc_no_handle_def accepted_def)
  have p: "post_status ?response = 200"
    by simp
  have j: "post_json ?response = Inr (PDict [(''msg'', PStr ''queued'')])"
    by simp
  have m: "map_of [(''msg'', PStr ''queued'')] ''event_id'' = None"
    by simp
  show ?thesis
    by (rule missing_handle_polls_none [OF s p j m])
qed

section \<open>The sentinel\<close>

text \<open>
  C6. In the three scripts a frame whose payload is \<^verbatim>\<open>null\<close> continues the line loop
  before any parser is called, whatever the parser would make of it: the frame yields no
  outcome, and a response reads the same with the frame or without it.
\<close>

theorem null_frame_is_pending:
  "handle_data_http loads ''null'' = Continue
   \<and> handle_data_logging loads target_text ''null'' = Continue
   \<and> handle_data_inspect loads literal_eval ''null'' = Continue
   \<and> for_lines (handle_data_http loads) (pre @ ''data: null'' # post)
       = for_lines (handle_data_http loads) (pre @ post)
   \<and> for_lines (handle_data_logging loads target_text) (pre @ ''data: null'' # post)
       = for_lines (handle_data_logging loads target_text) (pre @ post)
   \<and> for_lines (handle_data_inspect loads literal_eval) (pre @ ''data: null'' # post)
       = for_lines (handle_data_inspect loads literal_eval) (pre @ post)"
proof -
  have h: "handle_data_http loads ''null'' = Continue"
    by (simp add: handle_data_http_def)
  have l: "handle_data_logging loads target_text ''null'' = Continue"
    by (simp add: handle_data_logging_def)
  have i: "handle_data_inspect loads literal_eval ''null'' = Continue"
    by (simp add: handle_data_inspect_def)
  show ?thesis
    using h l i
      for_lines_skip [of "handle_data_http loads" "''null''" pre post]
      for_lines_skip [of "handle_data_logging loads target_text" "''null''" pre post]
      for_lines_skip [of "handle_data_inspect loads literal_eval" "''null''" pre post]
    by simp
qed

theorem null_frame_is_pending_witness:
  \<open>null_as_result ''null'' = Some (PList [PInt 0, PList [PDict []]])
   \<and> handle_data_http null_as_result ''null'' = Continue
   \<and> handle_data_logging null_as_result None ''null'' = Continue
   \<and> handle_data_inspect null_as_result null_as_result ''null'' = Continue
   \<and> for_lines (handle_data_http json_sample) [''data: null'', ''data: [0, "[{}]"]'']
       = for_lines (handle_data_http json_sample) [''data: [0, "[{}]"]'']\<close>
  using null_frame_is_pending [of null_as_result None null_as_result]
    null_frame_is_pending [of json_sample None json_sample \<open>[]\<close> \<open>[''data: [0, "[{}]"]'']\<close>]
  by (simp add: null_as_result_def parser_of_def)

section \<open>What counts as a result\<close>

lemma handle_data_http_decided:
  assumes "handle_data_http loads d \<noteq> Continue"
  shows "d \<noteq> ''null'' \<and> (\<exists>v. loads d = Some v \<and> raw_result v)"
  using assms
  by (auto simp: handle_data_http_def raw_result_def split: if_splits option.splits pyval.splits)

lemma handle_data_logging_decided:
  assumes "handle_data_logging loads t d \<noteq> Continue"
  shows "d \<noteq> ''null'' \<and> (\<exists>v. loads d = Some v \<and> raw_result v)"
  using assms
  by (auto simp: handle_data_logging_def raw_result_def split: if_splits option.splits pyval.splits)

lemma for_lines_http_decided:
  assumes "for_lines (handle_data_http loads) lines \<noteq> Continue"
  shows "terminal_frame_in loads lines"
proof -
  obtain d where "d \<in> set (frames lines)" and "handle_data_http loads d \<noteq> Continue"
    using for_lines_decided [OF assms] assms by auto
  then show ?thesis
    using handle_data_http_decided [of loads d]
    by (auto simp: terminal_frame_in_def list_ex_iff)
qed

lemma for_lines_logging_decided:
  assumes "for_lines (handle_data_logging loads t) lines \<noteq> Continue"
  shows "terminal_frame_in loads lines"
proof -
  obtain d where "d \<in> set (frames lines)" and "handle_data_logging loads t d \<noteq> Continue"
    using for_lines_decided [OF assms] assms by auto
  then show ?thesis
    using handle_data_logging_decided [of loads t d]
    by (auto simp: terminal_frame_in_def list_ex_iff)
qed

lemma poll_http_result:
  assumes "poll_http loads get m is n0 = (ResultReceived els, n)"
  shows "n0 < n \<and> (\<exists>r. get (n - 1) = Inr r \<and> status_code r = 200
           \<and> terminal_frame_in loads (split newline (strip (body r))))"
  using assms
proof (induction "is" arbitrary: n0)
  case Nil
  then show ?case by simp
next
  case (Cons i rest)
  show ?case
  proof (cases "get n0")
    case (Inl e)
    with Cons.prems show ?thesis
      by (simp add: except_http_def split: if_splits)
  next
    case (Inr r)
    show ?thesis
    proof (cases "status_code r = 200")
      case False
      with Inr Cons.prems have "poll_http loads get m rest (Suc n0) = (ResultReceived els, n)"
        by simp
      from Cons.IH [OF this] show ?thesis by auto
    next
      case True
      show ?thesis
      proof (cases "for_lines (handle_data_http loads) (split newline (strip (body r)))")
        case Continue
        with Inr True Cons.prems
        have "poll_http loads get m rest (Suc n0) = (ResultReceived els, n)"
          by (simp split: if_splits)
        from Cons.IH [OF this] show ?thesis by auto
      next
        case (Return out)
        then have "terminal_frame_in loads (split newline (strip (body r)))"
          using for_lines_http_decided [of loads "split newline (strip (body r))"] by simp
        moreover have "n = Suc n0"
          using Inr True Return Cons.prems by simp
        ultimately show ?thesis
          using Inr True by simp
      next
        case (Raise e)
        with Inr True Cons.prems show ?thesis
          by (simp add: except_http_def split: if_splits)
      qed
    qed
  qed
qed

lemma poll_logging_result:
  assumes "poll_logging loads t get is n0 = (StepsDone els matched, n)"
  shows "n0 < n \<and> (\<exists>r. get (n - 1) = Inr r \<and> status_code r = 200
           \<and> terminal_frame_in loads (split newline (body r)))"
  using assms
proof (induction "is" arbitrary: n0)
  case Nil
  then show ?case by simp
next
  case (Cons i rest)
  show ?case
  proof (cases "get n0")
    case (Inl e)
    with Cons.prems show ?thesis
      by simp
  next
    case (Inr r)
    show ?thesis
    proof (cases "status_code r = 200")
      case False
      with Inr Cons.prems
      have "poll_logging loads t get rest (Suc n0) = (StepsDone els matched, n)"
        by simp
      from Cons.IH [OF this] show ?thesis by auto
    next
      case True
      show ?thesis
      proof (cases "for_lines (handle_data_logging loads t) (split newline (body r))")
        case Continue
        with Inr True Cons.prems
        have "poll_logging loads t get rest (Suc n0) = (StepsDone els matched, n)"
          by simp
        from Cons.IH [OF this] show ?thesis by auto
      next
        case (Return out)
        then have "terminal_frame_in loads (split newline (body r))"
          using for_lines_logging_decided [of loads t "split newline (body r)"] by simp
        moreover have "n = Suc n0"
          using Inr True Return Cons.prems by simp
        ultimately show ?thesis
          using Inr True by simp
      next
        case (Raise e)
        with Inr True Cons.prems show ?thesis
          by simp
      qed
    qed
  qed
qed

text \<open>
  C7. A parsed frame that is not a list, or is a list of fewer than two members, continues
  the line loop in the HTTP and the logging script. Hence a run that ends with the result
  (the exit that returns True) made at least one GET call, and the response to its last
  call has status 200 and holds a frame parsed into a list of at least two members.
\<close>

theorem result_needs_two_members:
  "(loads d = Some v \<and> \<not> raw_result v \<longrightarrow>
      handle_data_http loads d = Continue \<and> handle_data_logging loads target_text d = Continue)
 \<and> (test_omniparser loads svc = (ResultReceived els, n) \<longrightarrow>
      0 < n \<and> (\<exists>event_id r. fetch svc event_id (n - 1) = Inr r \<and> status_code r = 200
        \<and> terminal_frame_in loads (split newline (strip (body r)))))
 \<and> (test_omniparser_with_logging loads target_text svc = (StepsDone elements matched, n) \<longrightarrow>
      0 < n \<and> (\<exists>event_id r. fetch svc event_id (n - 1) = Inr r \<and> status_code r = 200
        \<and> terminal_frame_in loads (split newline (body r))))"
proof (intro conjI impI)
  assume a: "loads d = Some v \<and> \<not> raw_result v"
  show "handle_data_http loads d = Continue"
    using a handle_data_http_decided [of loads d] by auto
  show "handle_data_logging loads target_text d = Continue"
    using a handle_data_logging_decided [of loads target_text d] by auto
next
  assume a: "test_omniparser loads svc = (ResultReceived els, n)"
  then obtain event_id
    where "poll_http loads (fetch svc event_id) 30 [0..<30] 0 = (ResultReceived els, n)"
    using test_omniparser_cases [of loads svc] by (auto simp: except_http_def split: if_splits)
  from poll_http_result [OF this]
  show "0 < n" and "\<exists>event_id r. fetch svc event_id (n - 1) = Inr r \<and> status_code r = 200
        \<and> terminal_frame_in loads (split newline (strip (body r)))"
    by auto
next
  assume a: "test_omniparser_with_logging loads target_text svc = (StepsDone elements matched, n)"
  then obtain event_id
    where "poll_logging loads target_text (fetch svc event_id) [0..<30] 0
        = (StepsDone elements matched, n)"
    using test_omniparser_with_logging_cases [of loads target_text svc] by auto
  from poll_logging_result [OF this]
  show "0 < n" and "\<exists>event_id r. fetch svc event_id (n - 1) = Inr r \<and> status_code r = 200
        \<and> terminal_frame_in loads (split newline (body r))"
    by auto
qed

theorem result_needs_two_members_witness:
  \<open>handle_data_http json_sample ''[7]'' = Continue
   \<and> handle_data_logging json_sample None ''{"msg": "queued"}'' = Continue
   \<and> (\<exists>event_id r. fetch svc_short_then_result event_id (2 - 1) = Inr r \<and> status_code r = 200
        \<and> terminal_frame_in json_sample (split newline (strip (body r))))\<close>
proof -
  have run: "test_omniparser json_sample svc_short_then_result
      = (ResultReceived (Some (PList [PDict []])), 2)"
    by (simp add: svc_short_then_result_def upt_conv_Cons string_defs builtin_defs sample_defs
        http_defs)
  have a: "json_sample ''[7]'' = Some (PList [PInt 7]) \<and> \<not> raw_result (PList [PInt 7])"
    by (simp add: sample_defs raw_result_def)
  have b: \<open>json_sample ''{"msg": "queued"}'' = Some (PDict [(''msg'', PStr ''queued'')])
      \<and> \<not> raw_result (PDict [(''msg'', PStr ''queued'')])\<close>
    by (simp add: sample_defs raw_result_def)
  show ?thesis
    using run a b
      result_needs_two_members [of json_sample "''[7]''" "PList [PInt 7]" None
        svc_short_then_result "Some (PList [PDict []])" 2]
      result_needs_two_members [of json_sample \<open>''{"msg": "queued"}''\<close>
        "PDict [(''msg'', PStr ''queued'')]" None]
    by simp
qed

section \<open>Absent fields of an element\<close>

lemma py_get_absent:
  "map_of kvs key = None \<Longrightarrow> py_get (PDict kvs) key dflt = Inr dflt"
  by (simp add: py_get_def)

lemma py_get_dict: "\<exists>v. py_get (PDict kvs) key dflt = Inr v"
  by (simp add: py_get_def)









section \<open>The text filter\<close>

lemma startswith_append: "startswith s t = (\<exists>q. s = t @ q)"
proof
  assume "startswith s t"
  then have "s = t @ drop (length t) s"
    by (metis append_take_drop_id startswith_def)
  then show "\<exists>q. s = t @ q" ..
next
  assume "\<exists>q. s = t @ q"
  then show "startswith s t"
    by (auto simp: startswith_def)
qed

lemma py_in_contains: "py_in t s = contains s t"
proof (induction s)
  case Nil
  then show ?case by (auto simp: contains_def)
next
  case (Cons c cs)
  have "contains (c # cs) t = ((\<exists>q. c # cs = t @ q) \<or> contains cs t)"
  proof
    assume "contains (c # cs) t"
    then obtain p q where pq: "c # cs = p @ t @ q"
      by (auto simp: contains_def)
    show "(\<exists>q. c # cs = t @ q) \<or> contains cs t"
    proof (cases p)
      case Nil
      with pq show ?thesis by auto
    next
      case (Cons a p')
      with pq have "cs = p' @ t @ q" by simp
      then show ?thesis by (auto simp: contains_def)
    qed
  next
    assume "(\<exists>q. c # cs = t @ q) \<or> contains cs t"
    then show "contains (c # cs) t"
    proof
      assume "\<exists>q. c # cs = t @ q"
      then obtain q where "c # cs = [] @ t @ q" by auto
      then show ?thesis unfolding contains_def by blast
    next
      assume "contains cs t"
      then obtain p q where "cs = p @ t @ q" by (auto simp: contains_def)
      then have "c # cs = (c # p) @ t @ q" by simp
      then show ?thesis unfolding contains_def by blast
    qed
  qed
  with Cons show ?case
    by (simp add: startswith_append)
qed

lemma lowered_field_text:
  assumes "lowered elem key = Inr c"
  shows "c = lower (field_text elem key)"
  using assms
  by (auto simp: lowered_def field_text_def py_get_def then_do_def py_or_def py_truthy_def
      lower_def split: pyval.splits option.splits if_splits)

lemma match_elements_filter:
  "match_elements (lower target) matched elements = Inr result
    \<Longrightarrow> result = matched @ filter (matches_target target) elements"
proof (induction elements arbitrary: matched)
  case Nil
  then show ?case by simp
next
  case (Cons elem rest)
  from Cons.prems obtain content source
    where c: "lowered elem ''content'' = Inr content"
      and s: "lowered elem ''source'' = Inr source"
    by (auto simp: then_do_def split: sum.splits)
  have m: "matches_target target elem
      = (py_in (lower target) content \<or> py_in (lower target) source)"
    using lowered_field_text [OF c] lowered_field_text [OF s]
    by (simp add: matches_target_def py_in_contains)
  show ?case
  proof (cases "matches_target target elem")
    case True
    then have "match_elements (lower target) (matched @ [elem]) rest = Inr result"
      using Cons.prems c s m by (auto simp: then_do_def split: sum.splits)
    from Cons.IH [OF this] True show ?thesis by simp
  next
    case False
    then have "match_elements (lower target) matched rest = Inr result"
      using Cons.prems c s m by (auto simp: then_do_def split: sum.splits)
    from Cons.IH [OF this] False show ?thesis by simp
  qed
qed

lemma filter_logging_done:
  assumes "filter_logging (Some target) els = Return (StepsDone els' matched)"
    and "target \<noteq> []" and "py_iter els = Inr elements"
  shows "els' = els \<and> matched = filter (matches_target target) elements \<and> matched \<noteq> []"
proof -
  obtain result where r: "match_elements (lower target) [] elements = Inr result"
    using assms by (auto simp: filter_logging_def then_do_def split: sum.splits)
  then have "result = filter (matches_target target) elements"
    using match_elements_filter [of target "[]" elements result] by simp
  then show ?thesis
    using assms r by (auto simp: filter_logging_def then_do_def split: if_splits)
qed

lemma handle_data_logging_done:
  assumes "handle_data_logging loads t d = Return (StepsDone els matched)"
  shows "filter_logging t els = Return (StepsDone els matched)"
proof -
  have f: "els' = els" if "filter_logging t els' = Return (StepsDone els matched)" for els'
    using that
    by (auto simp: filter_logging_def split: option.splits if_splits sum.splits)
  have "\<exists>els'. report_logging t els' = Return (StepsDone els matched)"
    using assms
    by (auto simp: handle_data_logging_def result_logging_def
        split: if_splits option.splits pyval.splits)
  then obtain els' where "report_logging t els' = Return (StepsDone els matched)" ..
  then have "filter_logging t els' = Return (StepsDone els matched)"
    by (auto simp: report_logging_def split: sum.splits if_splits)
  with f show ?thesis by auto
qed

lemma poll_logging_returned:
  assumes "poll_logging loads t get is n0 = (StepsDone els matched, n)"
  shows "\<exists>lines. for_lines (handle_data_logging loads t) lines = Return (StepsDone els matched)"
  using assms
proof (induction "is" arbitrary: n0)
  case Nil
  then show ?case by simp
next
  case (Cons i rest)
  show ?case
  proof (cases "\<exists>n1. poll_logging loads t get rest n1 = (StepsDone els matched, n)")
    case True
    then show ?thesis using Cons.IH by blast
  next
    case False
    with Cons.prems show ?thesis
      by (auto split: sum.splits if_splits frame.splits)
  qed
qed

lemma run_logging_done:
  assumes "test_omniparser_with_logging loads t svc = (StepsDone els matched, n)"
  shows "filter_logging t els = Return (StepsDone els matched)"
proof -
  obtain event_id
    where "poll_logging loads t (fetch svc event_id) [0..<30] 0 = (StepsDone els matched, n)"
    using assms test_omniparser_with_logging_cases [of loads t svc] by auto
  then obtain lines
    where l: "for_lines (handle_data_logging loads t) lines = Return (StepsDone els matched)"
    using poll_logging_returned by blast
  then have "for_lines (handle_data_logging loads t) lines \<noteq> Continue"
    by simp
  from for_lines_decided [OF this] l
  obtain d where "handle_data_logging loads t d = Return (StepsDone els matched)"
    by auto
  then show ?thesis
    by (rule handle_data_logging_done)
qed

text \<open>
  C9, as the code has it. The filter of the logging script puts the target and the content
  and source of every element in lower case, without trimming anything, and collects, in
  the original order, exactly the elements whose content or source contains the target as
  a substring. A run that ends with the result under a target has a matched list that is
  this sub-list and is not empty: when no element matches, the filter ends the run through
  the exit "no matched element", which returns False.
\<close>

theorem filter_is_lowercase_substring:
  "(match_elements (lower target) [] elements = Inr matched \<longrightarrow>
      matched = filter (matches_target target) elements)
 \<and> (target \<noteq> [] \<and> test_omniparser_with_logging loads (Some target) svc
        = (StepsDone (PList elements) matched, n) \<longrightarrow>
      matched = filter (matches_target target) elements \<and> matched \<noteq> [])
 \<and> (target \<noteq> [] \<and> match_elements (lower target) [] elements = Inr [] \<longrightarrow>
      filter_logging (Some target) (PList elements) = Return NoMatchedElement
      \<and> returns_logging NoMatchedElement = False)"
proof (intro conjI impI)
  assume "match_elements (lower target) [] elements = Inr matched"
  from match_elements_filter [OF this] show "matched = filter (matches_target target) elements"
    by simp
next
  assume a: "target \<noteq> [] \<and> test_omniparser_with_logging loads (Some target) svc
        = (StepsDone (PList elements) matched, n)"
  then have "filter_logging (Some target) (PList elements)
      = Return (StepsDone (PList elements) matched)"
    using run_logging_done by blast
  moreover have "py_iter (PList elements) = Inr elements"
    by (simp add: py_iter_def)
  ultimately have "matched = filter (matches_target target) elements \<and> matched \<noteq> []"
    using a filter_logging_done [of target "PList elements" "PList elements" matched elements]
    by blast
  then show "matched = filter (matches_target target) elements" and "matched \<noteq> []"
    by blast+
next
  assume a: "target \<noteq> [] \<and> match_elements (lower target) [] elements = Inr []"
  then show "filter_logging (Some target) (PList elements) = Return NoMatchedElement"
    by (simp add: filter_logging_def py_iter_def then_do_def)
  show "returns_logging NoMatchedElement = False"
    by (simp add: returns_logging_def)
qed

lemma lower_empty: "lower [] = []"
  by (simp add: lower_def)

lemma lower_ok: "lower ''ok'' = ''ok''"
  by code_simp

lemma lower_space_ok: "lower '' ok'' = '' ok''"
  by code_simp

lemma lower_zzz: "lower ''zzz'' = ''zzz''"
  by code_simp

lemma lower_OK_button: "lower ''OK button'' = ''ok button''"
  by code_simp

lemma lower_box_ocr: "lower ''box_ocr'' = ''box_ocr''"
  by code_simp

lemmas lower_samples = lower_empty lower_ok lower_space_ok lower_zzz lower_OK_button lower_box_ocr

lemma svc_two_elements_run:
  assumes \<open>for_lines (handle_data_logging json_sample t)
      [''data: [0, [{"content": "OK button"}, {"source": "box_ocr"}]]''] = Return out\<close>
  shows "test_omniparser_with_logging json_sample t svc_two_elements = (out, 1)"
proof -
  let ?r = \<open>\<lparr>status_code = 200,
      body = ''data: [0, [{"content": "OK button"}, {"source": "box_ocr"}]]''\<rparr>\<close>
  have h: "handle_given svc_two_elements (PStr ''abc'')"
    by (simp add: svc_two_elements_def handle_given_def accepted_def py_get_def)
  have f: "fetch svc_two_elements (PStr ''abc'') 0 = Inr ?r"
    by (simp add: svc_two_elements_def answer_def)
  have l: "for_lines (handle_data_logging json_sample t) (split newline (body ?r)) = Return out"
    using assms by (simp add: newline_def)
  show ?thesis
    using poll_logging_decides [OF h _ _ f _ l] by simp
qed

text \<open>
  The runs that refute C9 as stated: the target " ok" (which trimmed is "ok", and "ok"
  matches the first element) matches nothing, and a target that matches nothing makes the
  run return False instead of an empty list.
\<close>

theorem filter_counterexample:
  "strip '' ok'' = ''ok''
   \<and> test_omniparser_with_logging json_sample (Some ''ok'') svc_two_elements
       = (StepsDone (PList [PDict [(''content'', PStr ''OK button'')],
                            PDict [(''source'', PStr ''box_ocr'')]])
            [PDict [(''content'', PStr ''OK button'')]], 1)
   \<and> test_omniparser_with_logging json_sample (Some '' ok'') svc_two_elements
       = (NoMatchedElement, 1)
   \<and> test_omniparser_with_logging json_sample (Some ''zzz'') svc_two_elements
       = (NoMatchedElement, 1)
   \<and> returns_logging NoMatchedElement = False"
proof -
  have "strip '' ok'' = ''ok''"
    by (simp add: string_defs)
  moreover have "test_omniparser_with_logging json_sample (Some ''ok'') svc_two_elements
       = (StepsDone (PList [PDict [(''content'', PStr ''OK button'')],
                            PDict [(''source'', PStr ''box_ocr'')]])
            [PDict [(''content'', PStr ''OK button'')]], 1)"
    by (rule svc_two_elements_run)
      (simp add: string_defs builtin_defs sample_defs logging_defs lower_samples)
  moreover have "test_omniparser_with_logging json_sample (Some '' ok'') svc_two_elements
       = (NoMatchedElement, 1)"
    by (rule svc_two_elements_run)
      (simp add: string_defs builtin_defs sample_defs logging_defs lower_samples)
  moreover have "test_omniparser_with_logging json_sample (Some ''zzz'') svc_two_elements
       = (NoMatchedElement, 1)"
    by (rule svc_two_elements_run)
      (simp add: string_defs builtin_defs sample_defs logging_defs lower_samples)
  moreover have "returns_logging NoMatchedElement = False"
    by (simp add: returns_logging_def)
  ultimately show ?thesis
    by blast
qed

theorem filter_is_lowercase_substring_witness:
  "[PDict [(''content'', PStr ''OK button'')]]
     = filter (matches_target ''ok'')
         [PDict [(''content'', PStr ''OK button'')], PDict [(''source'', PStr ''box_ocr'')]]
   \<and> filter_logging (Some ''zzz'')
        (PList [PDict [(''content'', PStr ''OK button'')], PDict [(''source'', PStr ''box_ocr'')]])
       = Return NoMatchedElement"
proof -
  let ?elements = "[PDict [(''content'', PStr ''OK button'')], PDict [(''source'', PStr ''box_ocr'')]]"
  let ?matched = "[PDict [(''content'', PStr ''OK button'')]]"
  have run: "''ok'' \<noteq> [] \<and> test_omniparser_with_logging json_sample (Some ''ok'') svc_two_elements
      = (StepsDone (PList ?elements) ?matched, 1)"
    by (rule conjI, simp, rule svc_two_elements_run)
      (simp add: string_defs builtin_defs sample_defs logging_defs lower_samples)
  have none: "''zzz'' \<noteq> [] \<and> match_elements (lower ''zzz'') [] ?elements = Inr []"
    by (simp add: startswith_def builtin_defs lowered_def lower_samples)
  have "?matched = filter (matches_target ''ok'') ?elements \<and> ?matched \<noteq> []"
    using filter_is_lowercase_substring
      [of "''ok''" ?elements ?matched json_sample svc_two_elements 1] run
    by blast
  moreover have "filter_logging (Some ''zzz'') (PList ?elements) = Return NoMatchedElement
      \<and> returns_logging NoMatchedElement = False"
    using filter_is_lowercase_substring [of "''zzz''" ?elements] none
    by blast
  ultimately show ?thesis
    by blast
qed

section \<open>A result without elements\<close>

text \<open>
  C10. In the logging script, when the first frame that ends the line loop of an attempt
  is parsed into a list of at least two members whose second member is the empty element
  list (itself, or a string parsed into it), the run ends at that GET call through the
  exit "no element detected", which returns False.
\<close>

theorem empty_result_is_failure:
  assumes "handle_given svc event_id" and "k < 30"
    and "\<forall>j<k. quiet_logging loads target_text (fetch svc event_id) j"
    and "fetch svc event_id k = Inr r" and "status_code r = 200"
    and "split newline (body r) = pre @ (''data: '' @ d) # post"
    and "for_lines (handle_data_logging loads target_text) pre = Continue"
    and "d \<noteq> ''null''" and "loads d = Some (PList xs)" and "2 \<le> length xs"
    and "xs ! 1 = PList [] \<or> (\<exists>s. xs ! 1 = PStr s \<and> loads s = Some (PList []))"
  shows "test_omniparser_with_logging loads target_text svc = (NoElementsDetected, Suc k)
       \<and> returns_logging NoElementsDetected = False"
proof -
  have "report_logging target_text (PList []) = Return NoElementsDetected"
    by (simp add: report_logging_def py_len_def)
  then have "result_logging loads target_text (xs ! 1) = Return NoElementsDetected"
    using assms(11) by (auto simp: result_logging_def)
  then have "handle_data_logging loads target_text d = Return NoElementsDetected"
    using assms(8-10) by (simp add: handle_data_logging_def)
  then have "for_lines (handle_data_logging loads target_text) (split newline (body r))
      = Return NoElementsDetected"
    using assms(6,7) by (simp add: for_lines_append startswith_def)
  from poll_logging_decides [OF assms(1-5) this] show ?thesis
    by (simp add: returns_logging_def)
qed

theorem empty_result_is_failure_witness:
  "test_omniparser_with_logging json_sample None svc_empty_result = (NoElementsDetected, 2)
   \<and> returns_logging NoElementsDetected = False"
proof -
  let ?get = "fetch svc_empty_result (PStr ''abc'')"
  let ?r = \<open>\<lparr>status_code = 200, body = ''event: complete'' @ [newline] @ ''data: [0, "[]"]''\<rparr>\<close>
  have h: "handle_given svc_empty_result (PStr ''abc'')"
    by (simp add: svc_empty_result_def handle_given_def accepted_def py_get_def)
  have k: "(1::nat) < 30"
    by simp
  have q: "\<forall>j<1. quiet_logging json_sample None ?get j"
    by (simp add: svc_empty_result_def quiet_logging_def answer_def string_defs
        handle_data_logging_def)
  have f: "?get 1 = Inr ?r"
    by (simp add: svc_empty_result_def answer_def)
  have s: "status_code ?r = 200"
    by simp
  have l: \<open>split newline (body ?r) = [''event: complete''] @ (''data: '' @ ''[0, "[]"]'') # []\<close>
    by (simp add: newline_def)
  have p: "for_lines (handle_data_logging json_sample None) [''event: complete''] = Continue"
    by (simp add: startswith_def)
  have n: \<open>''[0, "[]"]'' \<noteq> ''null''\<close>
    by simp
  have d: \<open>json_sample ''[0, "[]"]'' = Some (PList [PInt 0, PStr ''[]''])\<close>
    by (simp add: sample_defs)
  have m: "2 \<le> length [PInt 0, PStr ''[]'']"
    by simp
  have e: "[PInt 0, PStr ''[]''] ! 1 = PList []
      \<or> (\<exists>s. [PInt 0, PStr ''[]''] ! 1 = PStr s \<and> json_sample s = Some (PList []))"
    by (simp add: sample_defs)
  have "test_omniparser_with_logging json_sample None svc_empty_result
        = (NoElementsDetected, Suc 1)
      \<and> returns_logging NoElementsDetected = False"
    by (rule empty_result_is_failure [OF h k q f s l p n d m e])
  then show ?thesis
    by simp
qed

end
